theory Spec2Isabelle
  imports Complex_Main "HOL-Library.Log_Nat" "HOL-Library.Sublist"
begin

section \<open>Python values used by CropCast\<close>

text \<open>
  CropCast (\<^verbatim>\<open>src/cropcast.py\<close>) is a PyQt6 program. Three kinds of Python values
  matter for the properties below: unbounded integers (HOL \<open>int\<close>), strings (HOL
  \<open>string\<close>) and floats. A Python float is an IEEE 754 binary64 number. The finite
  binary64 numbers are rationals, so a float is modelled by the rational it denotes, and
  every float operation by the exact rational operation followed by rounding to the
  nearest binary64 number, ties to even. Overflow to infinity is outside the model: the
  operands of the overlay are quotients and products of C \<open>int\<close> values (widget sizes,
  spin-box values, image sizes), whose results are far below \<open>2^1024\<close>.
\<close>

subsection \<open>Rounding to binary64\<close>

definition round_half_even :: "rat \<Rightarrow> int" where
  "round_half_even y =
     (let f = \<lfloor>y\<rfloor>; r = y - of_int f
      in if r < 1 / 2 then f else if 1 / 2 < r then f + 1 else if even f then f else f + 1)"

text \<open>\<open>binade x\<close> is the exponent \<open>e\<close> with \<open>2^e \<le> x < 2^(e+1)\<close>, for positive \<open>x\<close>.\<close>

definition binade :: "rat \<Rightarrow> int" where
  "binade x = (if 1 \<le> x then bitlen \<lfloor>x\<rfloor> - 1 else - bitlen (\<lceil>1 / x\<rceil> - 1))"

text \<open>
  The exponent of the last place: 53 significant bits for a normal number, the fixed
  exponent \<open>-1074\<close> for a subnormal one.
\<close>

definition ulp_exp :: "rat \<Rightarrow> int" where
  "ulp_exp x = max (binade x - 52) (- 1074)"

definition fl_pos :: "rat \<Rightarrow> rat" where
  "fl_pos x = of_int (round_half_even (x / 2 powi ulp_exp x)) * 2 powi ulp_exp x"

definition fl :: "rat \<Rightarrow> rat" where
  "fl x = (if x = 0 then 0 else if 0 < x then fl_pos x else - fl_pos (- x))"

definition unit_roundoff :: rat where
  "unit_roundoff = 2 powi (- 53)"

subsection \<open>Numbers, arithmetic and conversions\<close>

text \<open>
  The scale factors of \<^verbatim>\<open>paintEvent\<close> are a float (\<^verbatim>\<open>w / self.original_width\<close>) or
  the integer \<^verbatim>\<open>1\<close>, so a number carries its dynamic type.
\<close>

datatype pynum = PInt int | PFloat rat

text \<open>\<^verbatim>\<open>a / b\<close> on two ints with \<open>b \<noteq> 0\<close>: the correctly rounded quotient.\<close>

definition py_truediv :: "int \<Rightarrow> int \<Rightarrow> rat" where
  "py_truediv a b = fl (of_int a / of_int b)"

text \<open>
  \<^verbatim>\<open>a * s\<close> with an int on the left: an int product when \<open>s\<close> is an int; otherwise
  \<open>a\<close> is converted to a float first and the product is rounded.
\<close>

fun py_mul_int :: "int \<Rightarrow> pynum \<Rightarrow> pynum" where
  "py_mul_int a (PInt b) = PInt (a * b)"
| "py_mul_int a (PFloat s) = PFloat (fl (fl (of_int a) * s))"

text \<open>\<^verbatim>\<open>int(x)\<close>: the identity on an int, truncation towards zero on a float.\<close>

fun py_int :: "pynum \<Rightarrow> int" where
  "py_int (PInt a) = a"
| "py_int (PFloat x) = (if 0 \<le> x then \<lfloor>x\<rfloor> else \<lceil>x\<rceil>)"

text \<open>\<^verbatim>\<open>str(n)\<close> and the \<^verbatim>\<open>{n}\<close> of an f-string, for an int: decimal digits, with a sign.\<close>

definition digit_char :: "nat \<Rightarrow> char" where
  "digit_char d = ''0123456789'' ! d"

fun digits10 :: "nat \<Rightarrow> string" where
  "digits10 n = (if n < 10 then [digit_char n] else digits10 (n div 10) @ [digit_char (n mod 10)])"

declare digits10.simps [simp del]

definition py_str_int :: "int \<Rightarrow> string" where
  "py_str_int i = (if i < 0 then CHR ''-'' # digits10 (nat (- i)) else digits10 (nat i))"

text \<open>\<^verbatim>\<open>s.startswith((p1, p2, ...))\<close>.\<close>

definition startswith_any :: "string \<Rightarrow> string list \<Rightarrow> bool" where
  "startswith_any s ps = (\<exists>p \<in> set ps. prefix p s)"

text \<open>A value of Qt's C type \<open>int\<close>.\<close>

definition c_int :: "int \<Rightarrow> bool" where
  "c_int i = (- (2 ^ 31) \<le> i \<and> i < 2 ^ 31)"

section \<open>CropOverlay\<close>

text \<open>
  The overlay widget: its own attributes and the two values it reads from QWidget,
  \<^verbatim>\<open>self.width()\<close> and \<^verbatim>\<open>self.height()\<close>.
\<close>

record CropOverlay =
  crop_top :: int
  crop_bottom :: int
  crop_left :: int
  crop_right :: int
  original_width :: int
  original_height :: int
  width :: int
  height :: int

definition CropOverlay_init :: "int \<Rightarrow> int \<Rightarrow> CropOverlay" where
  "CropOverlay_init w h =
     \<lparr>crop_top = 0, crop_bottom = 0, crop_left = 0, crop_right = 0,
      original_width = 1, original_height = 1, width = w, height = h\<rparr>"

definition setCrop ::
  "CropOverlay \<Rightarrow> int \<Rightarrow> int \<Rightarrow> int \<Rightarrow> int \<Rightarrow> int option \<Rightarrow> int option \<Rightarrow> CropOverlay" where
  "setCrop ov t b l r ow oh =
     (let ov1 = ov\<lparr>crop_top := t, crop_bottom := b, crop_left := l, crop_right := r\<rparr>;
          ov2 = (case ow of None \<Rightarrow> ov1 | Some w \<Rightarrow> ov1\<lparr>original_width := w\<rparr>)
      in (case oh of None \<Rightarrow> ov2 | Some h \<Rightarrow> ov2\<lparr>original_height := h\<rparr>))"

text \<open>Lines 61-62: the scale factors from original video pixels to preview pixels.\<close>

definition scale_x :: "CropOverlay \<Rightarrow> pynum" where
  "scale_x ov = (if original_width ov > 0
                 then PFloat (py_truediv (width ov) (original_width ov)) else PInt 1)"

definition scale_y :: "CropOverlay \<Rightarrow> pynum" where
  "scale_y ov = (if original_height ov > 0
                 then PFloat (py_truediv (height ov) (original_height ov)) else PInt 1)"

text \<open>The four positions as \<^verbatim>\<open>paintEvent\<close> computes them (lines 74, 77, 80, 83).\<close>

definition top_pos :: "CropOverlay \<Rightarrow> int" where
  "top_pos ov = py_int (py_mul_int (crop_top ov) (scale_y ov))"

definition bottom_pos :: "CropOverlay \<Rightarrow> int" where
  "bottom_pos ov = height ov - py_int (py_mul_int (crop_bottom ov) (scale_y ov))"

definition left_pos :: "CropOverlay \<Rightarrow> int" where
  "left_pos ov = py_int (py_mul_int (crop_left ov) (scale_x ov))"

definition right_pos :: "CropOverlay \<Rightarrow> int" where
  "right_pos ov = width ov - py_int (py_mul_int (crop_right ov) (scale_x ov))"

text \<open>
  What the painter is asked to do, in order. A colour is (red, green, blue, alpha); the
  pen style is always the solid line and is left out.
\<close>

type_synonym color = "nat \<times> nat \<times> nat \<times> nat"

datatype paint_op =
    SetPen color nat
  | DrawRect int int int int
  | DrawLine int int int int
  | FillRect int int int int color

text \<open>Lines 73-84: a guide line for every side whose crop distance is positive.\<close>

definition guide_lines :: "CropOverlay \<Rightarrow> paint_op list" where
  "guide_lines ov =
     (if crop_top ov > 0 then [DrawLine 0 (top_pos ov) (width ov) (top_pos ov)] else []) @
     (if crop_bottom ov > 0 then [DrawLine 0 (bottom_pos ov) (width ov) (bottom_pos ov)] else []) @
     (if crop_left ov > 0 then [DrawLine (left_pos ov) 0 (left_pos ov) (height ov)] else []) @
     (if crop_right ov > 0 then [DrawLine (right_pos ov) 0 (right_pos ov) (height ov)] else [])"

text \<open>
  Lines 95-96 and 100-101: the vertical extent of the left and right rectangles.
\<close>

definition side_top :: "CropOverlay \<Rightarrow> int" where
  "side_top ov = (if crop_top ov > 0 then top_pos ov else 0)"

definition side_bottom :: "CropOverlay \<Rightarrow> int" where
  "side_bottom ov = (if crop_bottom ov > 0 then bottom_pos ov else height ov)"

text \<open>Lines 87-102: the dimmed rectangles over the cropped-away regions.\<close>

definition occlusion :: "CropOverlay \<Rightarrow> paint_op list" where
  "occlusion ov =
     (if crop_top ov > 0
      then [FillRect 0 0 (width ov) (top_pos ov) (0, 0, 0, 100)] else []) @
     (if crop_bottom ov > 0
      then [FillRect 0 (bottom_pos ov) (width ov) (height ov - bottom_pos ov) (0, 0, 0, 100)]
      else []) @
     (if crop_left ov > 0
      then [FillRect 0 (side_top ov) (left_pos ov) (side_bottom ov - side_top ov) (0, 0, 0, 100)]
      else []) @
     (if crop_right ov > 0
      then [FillRect (right_pos ov) (side_top ov) (width ov - right_pos ov)
              (side_bottom ov - side_top ov) (0, 0, 0, 100)]
      else [])"

definition paintEvent :: "CropOverlay \<Rightarrow> paint_op list" where
  "paintEvent ov =
     [SetPen (100, 100, 100, 150) 1,
      DrawRect 0 0 (width ov - 1) (height ov - 1),
      SetPen (255, 0, 0, 200) 2] @ guide_lines ov @ occlusion ov"

subsection \<open>Pixels\<close>

text \<open>
  A filled rectangle \<open>(x, y, w, h)\<close> covers the pixels of columns \<open>x \<dots> x + w - 1\<close> and
  rows \<open>y \<dots> y + h - 1\<close>. The surface of the overlay is the rectangle \<open>(0, 0, width, height)\<close>.
\<close>

type_synonym rect = "int \<times> int \<times> int \<times> int"

fun in_rect :: "int \<times> int \<Rightarrow> rect \<Rightarrow> bool" where
  "in_rect (px, py) (x, y, w, h) = (x \<le> px \<and> px < x + w \<and> y \<le> py \<and> py < y + h)"

fun filled :: "paint_op \<Rightarrow> rect list" where
  "filled (FillRect x y w h c) = [(x, y, w, h)]"
| "filled _ = []"

definition occlusion_rects :: "CropOverlay \<Rightarrow> rect list" where
  "occlusion_rects ov = concat (map filled (occlusion ov))"

definition surface :: "CropOverlay \<Rightarrow> rect" where
  "surface ov = (0, 0, width ov, height ov)"

text \<open>
  The uncropped centre tile of the specification: the region left between the four mapped
  offsets, a side without crop reaching the edge of the surface.
\<close>

definition center_tile :: "CropOverlay \<Rightarrow> rect" where
  "center_tile ov =
     (let l = (if crop_left ov > 0 then left_pos ov else 0);
          r = (if crop_right ov > 0 then right_pos ov else width ov)
      in (l, side_top ov, r - l, side_bottom ov - side_top ov))"

text \<open>How many of the given regions contain a pixel.\<close>

definition cover_count :: "rect list \<Rightarrow> int \<times> int \<Rightarrow> nat" where
  "cover_count rs p = length (filter (in_rect p) rs)"

text \<open>The example of the specification: crop 10/0/20/0 on 640x480 shown at 320x240.\<close>

definition example_overlay :: CropOverlay where
  "example_overlay =
     \<lparr>crop_top = 10, crop_bottom = 0, crop_left = 20, crop_right = 0,
      original_width = 640, original_height = 480, width = 320, height = 240\<rparr>"


section \<open>ConversionThread\<close>

text \<open>
  The thread reports through two Qt signals, \<^verbatim>\<open>progress(str)\<close> and
  \<^verbatim>\<open>finished(bool, str)\<close>. The encoder process is the environment: either an
  exception is raised while it is started or read (after some lines, with the text
  \<^verbatim>\<open>str(e)\<close>), or it ends with a return code after all its lines have been read.
\<close>

datatype signal = Progress string | Finished bool string

datatype process_run =
    Raised "string list" string
  | Exited "string list" int

text \<open>Lines 201-206.\<close>

definition finished_signal :: "int \<Rightarrow> signal" where
  "finished_signal returncode =
     (if returncode = 0 then Finished True ''Conversion completed successfully''
      else if returncode = - 15 then Finished False ''Conversion stopped by user''
      else Finished False (''Conversion failed with code '' @ py_str_int returncode))"

text \<open>
  \<^verbatim>\<open>ConversionThread.run\<close>; \<open>strip\<close> stands for Python's \<^verbatim>\<open>str.strip\<close>.
\<close>

fun ConversionThread_run :: "(string \<Rightarrow> string) \<Rightarrow> process_run \<Rightarrow> signal list" where
  "ConversionThread_run strip (Exited ls returncode) =
     map (\<lambda>l. Progress (strip l)) ls @ [finished_signal returncode]"
| "ConversionThread_run strip (Raised ls msg) =
     map (\<lambda>l. Progress (strip l)) ls @ [Finished False (''Error: '' @ msg)]"

text \<open>
  The three terminal states of the specification's runner, read off a signal: success is
  the flag, cancellation is the dedicated message, everything else is a failure.
\<close>

datatype outcome = Succeeded | Cancelled | Failed

fun outcome_of :: "signal \<Rightarrow> outcome option" where
  "outcome_of (Progress l) = None"
| "outcome_of (Finished ok msg) =
     Some (if ok then Succeeded
           else if msg = ''Conversion stopped by user'' then Cancelled else Failed)"

section \<open>CropCastApp\<close>

text \<open>
  The main window. Of its state the record keeps what the command builder and the
  settings store read and write. \<^verbatim>\<open>log_console\<close> only appends text to a console
  widget that nothing reads back, and the \<^verbatim>\<open>valueChanged\<close> signal of a spin box only
  repaints the overlay; both are left out.
\<close>

subsection \<open>Widgets and the environment\<close>

text \<open>A QSpinBox: a range and a value that Qt keeps inside the range.\<close>

record QSpinBox =
  minimum :: int
  maximum :: int
  spin_value :: int

definition QSpinBox_new :: QSpinBox where
  "QSpinBox_new = \<lparr>minimum = 0, maximum = 99, spin_value = 0\<rparr>"

definition setRange :: "int \<Rightarrow> int \<Rightarrow> QSpinBox \<Rightarrow> QSpinBox" where
  "setRange lo hi sb =
     (let hi' = max lo hi
      in sb\<lparr>minimum := lo, maximum := hi', spin_value := max lo (min hi' (spin_value sb))\<rparr>)"

definition setValue :: "int \<Rightarrow> QSpinBox \<Rightarrow> QSpinBox" where
  "setValue v sb = sb\<lparr>spin_value := max (minimum sb) (min (maximum sb) v)\<rparr>"

text \<open>
  A QComboBox: the items (text and user data) and the current index, \<open>-1\<close> when there is
  none. Only the calls made while its signals are blocked are needed.
\<close>

record QComboBox =
  items :: "(string \<times> string option) list"
  current_index :: int

definition setCurrentIndex :: "nat \<Rightarrow> QComboBox \<Rightarrow> QComboBox" where
  "setCurrentIndex i cb = cb\<lparr>current_index := (if i < length (items cb) then int i else - 1)\<rparr>"

definition setItemText :: "nat \<Rightarrow> string \<Rightarrow> QComboBox \<Rightarrow> QComboBox" where
  "setItemText i t cb =
     (if i < length (items cb) then cb\<lparr>items := (items cb)[i := (t, snd (items cb ! i))]\<rparr> else cb)"

definition setItemData :: "nat \<Rightarrow> string option \<Rightarrow> QComboBox \<Rightarrow> QComboBox" where
  "setItemData i d cb =
     (if i < length (items cb) then cb\<lparr>items := (items cb)[i := (fst (items cb ! i), d)]\<rparr> else cb)"

datatype video_codec = VP9 | VP8

datatype audio_codec = Opus | Vorbis

text \<open>
  What the program asks of the platform: \<^verbatim>\<open>sys.platform\<close>, \<^verbatim>\<open>Path(p).exists()\<close>,
  \<^verbatim>\<open>Path(p).name\<close>, \<^verbatim>\<open>Path(p).stem\<close>, \<^verbatim>\<open>str(Path(a) / b)\<close>, \<^verbatim>\<open>str(Path.home())\<close> and
  the capture devices found by \<^verbatim>\<open>detect_linux_devices\<close> or
  \<^verbatim>\<open>detect_windows_devices\<close> (item text and device identifier).
\<close>

record env =
  platform :: string
  path_exists :: "string \<Rightarrow> bool"
  path_name :: "string \<Rightarrow> string"
  path_stem :: "string \<Rightarrow> string"
  path_join :: "string \<Rightarrow> string \<Rightarrow> string"
  home :: string
  detected_devices :: "(string \<times> string) list"

text \<open>A parsed JSON document, as \<^verbatim>\<open>json.load\<close> returns it.\<close>

datatype json =
    JNull
  | JBool bool
  | JInt int
  | JFloat rat
  | JString string
  | JArray "json list"
  | JObject "(string \<times> json) list"

datatype exn = AttributeError | TypeError | OverflowError

text \<open>
  \<^verbatim>\<open>output_path\<close> holds whatever the settings document gave for it, hence a JSON value;
  a string in every state that the program itself has saved.
\<close>

record CropCastApp =
  current_source :: "string option"
  output_path :: json
  is_device_source :: bool
  source_combo :: QComboBox
  crop_top_spin :: QSpinBox
  crop_bottom_spin :: QSpinBox
  crop_left_spin :: QSpinBox
  crop_right_spin :: QSpinBox
  video_codec_combo :: video_codec
  audio_codec_combo :: audio_codec
  quality_spin :: QSpinBox
  bitrate_spin :: QSpinBox

text \<open>The state after the assignments of \<^verbatim>\<open>__init__\<close> and after \<^verbatim>\<open>init_ui\<close>.\<close>

definition init_ui :: "env \<Rightarrow> CropCastApp" where
  "init_ui e =
     \<lparr>current_source = None,
      output_path = JString (home e),
      is_device_source = False,
      source_combo = \<lparr>items = [], current_index = - 1\<rparr>,
      crop_top_spin = setRange 0 4000 QSpinBox_new,
      crop_bottom_spin = setRange 0 4000 QSpinBox_new,
      crop_left_spin = setRange 0 4000 QSpinBox_new,
      crop_right_spin = setRange 0 4000 QSpinBox_new,
      video_codec_combo = VP9,
      audio_codec_combo = Opus,
      quality_spin = setValue 30 (setRange 0 63 QSpinBox_new),
      bitrate_spin = setValue 0 (setRange 0 50000 QSpinBox_new)\<rparr>"

subsection \<open>build_ffmpeg_command\<close>

text \<open>Lines 826-835: the input arguments, or nothing when the file is not there.\<close>

definition input_args :: "env \<Rightarrow> string \<Rightarrow> string list option" where
  "input_args e src =
     (if prefix ''linux'' (platform e) \<and> prefix ''/dev/'' src
      then Some [''-f'', ''v4l2'', ''-i'', src]
      else if prefix ''win'' (platform e) \<and> prefix ''video='' src
      then Some [''-f'', ''dshow'', ''-i'', src]
      else if \<not> path_exists e src then None
      else Some [''-i'', src])"

text \<open>Lines 838-845.\<close>

definition filter_str :: "int \<Rightarrow> int \<Rightarrow> int \<Rightarrow> int \<Rightarrow> string" where
  "filter_str t b l r =
     ''crop=iw-'' @ py_str_int l @ ''-'' @ py_str_int r @ '':ih-'' @ py_str_int t @ ''-'' @
     py_str_int b @ '':'' @ py_str_int l @ '':'' @ py_str_int t"

definition crop_args :: "CropCastApp \<Rightarrow> string list" where
  "crop_args st =
     (let t = spin_value (crop_top_spin st); b = spin_value (crop_bottom_spin st);
          l = spin_value (crop_left_spin st); r = spin_value (crop_right_spin st)
      in if t \<noteq> 0 \<or> b \<noteq> 0 \<or> l \<noteq> 0 \<or> r \<noteq> 0 then [''-vf'', filter_str t b l r] else [])"

text \<open>Lines 848-855.\<close>

definition video_args :: "CropCastApp \<Rightarrow> string list" where
  "video_args st =
     (if video_codec_combo st = VP9
      then [''-c:v'', ''libvpx-vp9'', ''-row-mt'', ''1'', ''-tile-columns'', ''2'']
      else [''-c:v'', ''libvpx''])"

text \<open>Lines 858-864.\<close>

definition rate_args :: "CropCastApp \<Rightarrow> string list" where
  "rate_args st =
     (if spin_value (bitrate_spin st) > 0
      then [''-b:v'', py_str_int (spin_value (bitrate_spin st)) @ ''k'']
      else [''-crf'', py_str_int (spin_value (quality_spin st))] @
           (if video_codec_combo st = VP9 then [''-b:v'', ''0''] else []))"

text \<open>Lines 867-871.\<close>

definition audio_args :: "CropCastApp \<Rightarrow> string list" where
  "audio_args st =
     (if audio_codec_combo st = Opus
      then [''-c:a'', ''libopus'', ''-b:a'', ''128k'']
      else [''-c:a'', ''libvorbis'', ''-b:a'', ''128k''])"

text \<open>Lines 883-884; \<^verbatim>\<open>Path(x)\<close> raises TypeError when \<open>x\<close> is not a string.\<close>

definition output_file :: "env \<Rightarrow> CropCastApp \<Rightarrow> string \<Rightarrow> bool \<Rightarrow> exn + string" where
  "output_file e st src is_device =
     (let input_name = (if \<not> is_device then path_stem e src else ''capture'')
      in case output_path st of
           JString folder \<Rightarrow> Inr (path_join e folder (input_name @ ''_cropped.webm''))
         | _ \<Rightarrow> Inl TypeError)"

text \<open>
  The result is an exception, \<^verbatim>\<open>None\<close> or the argument list.
  \<^verbatim>\<open>self.current_source.startswith\<close> raises AttributeError while no source is set.
\<close>

definition build_ffmpeg_command :: "env \<Rightarrow> CropCastApp \<Rightarrow> exn + string list option" where
  "build_ffmpeg_command e st =
     (case current_source st of
        None \<Rightarrow> Inl AttributeError
      | Some src \<Rightarrow>
          (let is_device = startswith_any src [''video='', ''/dev/'']
           in case input_args e src of
                None \<Rightarrow> Inr None
              | Some inp \<Rightarrow>
                  (case output_file e st src is_device of
                     Inl x \<Rightarrow> Inl x
                   | Inr out \<Rightarrow>
                       Inr (Some ([''ffmpeg'', ''-y''] @ inp @ crop_args st @ video_args st @
                                  rate_args st @ audio_args st @ [''-f'', ''webm''] @
                                  (if is_device then [''-t'', ''30''] else []) @ [out])))))"

text \<open>
  How the encoder reads such a list: after the program name and \<^verbatim>\<open>-y\<close> come options,
  each a flag followed by its value, and the last argument is the output file.
\<close>

fun option_pairs :: "string list \<Rightarrow> (string \<times> string) list" where
  "option_pairs (k # v # rest) = (k, v) # option_pairs rest"
| "option_pairs _ = []"

definition ffmpeg_options :: "string list \<Rightarrow> (string \<times> string) list" where
  "ffmpeg_options cmd = option_pairs (butlast (drop 2 cmd))"

subsection \<open>Settings\<close>

text \<open>The settings file as \<^verbatim>\<open>load_settings\<close> finds it.\<close>

datatype settings_file =
    Missing
  | Unreadable
  | Document json

text \<open>\<^verbatim>\<open>settings.get(key, default)\<close>; AttributeError when the document is not an object.\<close>

definition dict_get :: "json \<Rightarrow> string \<Rightarrow> json \<Rightarrow> exn + json" where
  "dict_get d k dflt =
     (case d of
        JObject kvs \<Rightarrow> Inr (case map_of kvs k of Some v \<Rightarrow> v | None \<Rightarrow> dflt)
      | _ \<Rightarrow> Inl AttributeError)"

text \<open>
  A Python value passed where PyQt expects a C \<open>int\<close>: an int in range is taken, a bool
  is an int, a larger int raises OverflowError and any other value TypeError.
\<close>

fun json_to_c_int :: "json \<Rightarrow> exn + int" where
  "json_to_c_int (JInt i) = (if c_int i then Inr i else Inl OverflowError)"
| "json_to_c_int (JBool b) = Inr (if b then 1 else 0)"
| "json_to_c_int _ = Inl TypeError"

text \<open>\<^verbatim>\<open>spin.setValue(settings.get(key, default))\<close>.\<close>

definition load_spin :: "json \<Rightarrow> string \<Rightarrow> int \<Rightarrow> QSpinBox \<Rightarrow> exn + QSpinBox" where
  "load_spin settings key dflt sb =
     (case dict_get settings key (JInt dflt) of
        Inl x \<Rightarrow> Inl x
      | Inr v \<Rightarrow> (case json_to_c_int v of Inl x \<Rightarrow> Inl x | Inr i \<Rightarrow> Inr (setValue i sb)))"

text \<open>Python's truth value of a JSON value.\<close>

fun truthy :: "json \<Rightarrow> bool" where
  "truthy JNull = False"
| "truthy (JBool b) = b"
| "truthy (JInt i) = (i \<noteq> 0)"
| "truthy (JFloat x) = (x \<noteq> 0)"
| "truthy (JString s) = (s \<noteq> [])"
| "truthy (JArray xs) = (xs \<noteq> [])"
| "truthy (JObject kvs) = (kvs \<noteq> [])"

text \<open>The first index whose item satisfies the test, as the loop of lines 938-943 finds it.\<close>

fun first_index :: "('a \<Rightarrow> bool) \<Rightarrow> 'a list \<Rightarrow> nat option" where
  "first_index P [] = None"
| "first_index P (x # xs) =
     (if P x then Some 0 else map_option Suc (first_index P xs))"

text \<open>Lines 928-953.\<close>

definition restore_source :: "env \<Rightarrow> json \<Rightarrow> CropCastApp \<Rightarrow> exn + CropCastApp" where
  "restore_source e settings st =
     (case dict_get settings ''source'' JNull of
        Inl x \<Rightarrow> Inl x
      | Inr saved_source \<Rightarrow>
          if \<not> truthy saved_source then Inr st
          else (case saved_source of
                  JString s \<Rightarrow>
                    if startswith_any s [''video='', ''/dev/'']
                    then (case first_index (\<lambda>it. snd it = Some s) (items (source_combo st)) of
                            None \<Rightarrow> Inr st
                          | Some i \<Rightarrow>
                              Inr (st\<lparr>source_combo := setCurrentIndex i (source_combo st),
                                      current_source := Some s,
                                      is_device_source := True\<rparr>))
                    else if path_exists e s
                    then Inr (st\<lparr>source_combo :=
                                    setCurrentIndex 0
                                      (setItemData 0 (Some s)
                                        (setItemText 0 (path_name e s) (source_combo st))),
                                 current_source := Some s,
                                 is_device_source := False\<rparr>)
                    else Inr st
                | _ \<Rightarrow> Inl AttributeError))"

text \<open>
  The statements of a \<^verbatim>\<open>try\<close> block in sequence: the first exception ends the block
  and the state stays as the statements before it left it.
\<close>

fun run_steps :: "('s \<Rightarrow> exn + 's) list \<Rightarrow> 's \<Rightarrow> 's \<times> exn option" where
  "run_steps [] s = (s, None)"
| "run_steps (f # fs) s = (case f s of Inl x \<Rightarrow> (s, Some x) | Inr s' \<Rightarrow> run_steps fs s')"

text \<open>Lines 919-953, one step per statement.\<close>

definition load_steps :: "env \<Rightarrow> json \<Rightarrow> (CropCastApp \<Rightarrow> exn + CropCastApp) list" where
  "load_steps e settings =
     [\<lambda>st. map_sum id (\<lambda>sb. st\<lparr>crop_top_spin := sb\<rparr>)
             (load_spin settings ''crop_top'' 0 (crop_top_spin st)),
      \<lambda>st. map_sum id (\<lambda>sb. st\<lparr>crop_bottom_spin := sb\<rparr>)
             (load_spin settings ''crop_bottom'' 0 (crop_bottom_spin st)),
      \<lambda>st. map_sum id (\<lambda>sb. st\<lparr>crop_left_spin := sb\<rparr>)
             (load_spin settings ''crop_left'' 0 (crop_left_spin st)),
      \<lambda>st. map_sum id (\<lambda>sb. st\<lparr>crop_right_spin := sb\<rparr>)
             (load_spin settings ''crop_right'' 0 (crop_right_spin st)),
      \<lambda>st. map_sum id (\<lambda>v. st\<lparr>output_path := v\<rparr>)
             (dict_get settings ''output_path'' (JString (home e))),
      \<lambda>st. map_sum id (\<lambda>sb. st\<lparr>quality_spin := sb\<rparr>)
             (load_spin settings ''quality'' 30 (quality_spin st)),
      \<lambda>st. map_sum id (\<lambda>sb. st\<lparr>bitrate_spin := sb\<rparr>)
             (load_spin settings ''bitrate'' 0 (bitrate_spin st)),
      restore_source e settings]"

text \<open>
  \<^verbatim>\<open>load_settings\<close>: nothing happens without a file; every exception raised while the
  file is read or applied is caught by the handler of line 956, which only logs.
\<close>

definition load_settings :: "env \<Rightarrow> settings_file \<Rightarrow> CropCastApp \<Rightarrow> CropCastApp" where
  "load_settings e file st =
     (case file of
        Missing \<Rightarrow> st
      | Unreadable \<Rightarrow> st
      | Document settings \<Rightarrow> fst (run_steps (load_steps e settings) st))"



text \<open>
  \<^verbatim>\<open>detect_sources\<close> rebuilds the combo box: the file entry, then the detected devices
  on Linux and Windows. The first entry becomes current; its data is \<^verbatim>\<open>None\<close>, so
  \<^verbatim>\<open>on_source_changed\<close> leaves the current source alone.
\<close>

definition detect_sources :: "env \<Rightarrow> CropCastApp \<Rightarrow> CropCastApp" where
  "detect_sources e st =
     st\<lparr>source_combo :=
          \<lparr>items = (''Select a file...'', None) #
                   (if prefix ''linux'' (platform e) \<or> prefix ''win'' (platform e)
                    then map (\<lambda>(label, dev). (label, Some dev)) (detected_devices e) else []),
           current_index = 0\<rparr>\<rparr>"

text \<open>\<^verbatim>\<open>CropCastApp.__init__\<close>: the settings are loaded before the sources are detected.\<close>

definition CropCastApp_init :: "env \<Rightarrow> settings_file \<Rightarrow> CropCastApp" where
  "CropCastApp_init e file = detect_sources e (load_settings e file (init_ui e))"

text \<open>The widget invariant: every spin box has the range given in \<^verbatim>\<open>init_ui\<close> and a value inside it.\<close>

definition spin_ok :: "int \<Rightarrow> int \<Rightarrow> QSpinBox \<Rightarrow> bool" where
  "spin_ok lo hi sb = (minimum sb = lo \<and> maximum sb = hi \<and> lo \<le> spin_value sb \<and> spin_value sb \<le> hi)"

definition widgets_ok :: "CropCastApp \<Rightarrow> bool" where
  "widgets_ok st =
     (spin_ok 0 4000 (crop_top_spin st) \<and> spin_ok 0 4000 (crop_bottom_spin st) \<and>
      spin_ok 0 4000 (crop_left_spin st) \<and> spin_ok 0 4000 (crop_right_spin st) \<and>
      spin_ok 0 63 (quality_spin st) \<and> spin_ok 0 50000 (bitrate_spin st))"

subsection \<open>Sample environment and states\<close>

definition sample_env :: env where
  "sample_env =
     \<lparr>platform = ''linux'',
      path_exists = (\<lambda>p. p = ''/videos/clip.mp4''),
      path_name = (\<lambda>p. ''clip.mp4''),
      path_stem = (\<lambda>p. ''clip''),
      path_join = (\<lambda>a b. a @ ''/'' @ b),
      home = ''/home/user'',
      detected_devices = [(''Webcam (video0)'', ''/dev/video0'')]\<rparr>"

definition sample_app :: CropCastApp where
  "sample_app =
     (init_ui sample_env)
       \<lparr>current_source := Some ''/videos/clip.mp4'',
        crop_top_spin := setValue 10 (crop_top_spin (init_ui sample_env)),
        crop_left_spin := setValue 20 (crop_left_spin (init_ui sample_env))\<rparr>"

definition sample_cmd :: "string list" where
  "sample_cmd =
     [''ffmpeg'', ''-y'', ''-i'', ''/videos/clip.mp4'', ''-vf'', ''crop=iw-20-0:ih-10-0:20:10'',
      ''-c:v'', ''libvpx-vp9'', ''-row-mt'', ''1'', ''-tile-columns'', ''2'',
      ''-crf'', ''30'', ''-b:v'', ''0'', ''-c:a'', ''libopus'', ''-b:a'', ''128k'',
      ''-f'', ''webm'', ''/home/user/clip_cropped.webm'']"

definition sample_app_bitrate :: CropCastApp where
  "sample_app_bitrate = sample_app\<lparr>bitrate_spin := setValue 2500 (bitrate_spin sample_app)\<rparr>"

definition sample_cmd_bitrate :: "string list" where
  "sample_cmd_bitrate =
     [''ffmpeg'', ''-y'', ''-i'', ''/videos/clip.mp4'', ''-vf'', ''crop=iw-20-0:ih-10-0:20:10'',
      ''-c:v'', ''libvpx-vp9'', ''-row-mt'', ''1'', ''-tile-columns'', ''2'',
      ''-b:v'', ''2500k'', ''-c:a'', ''libopus'', ''-b:a'', ''128k'',
      ''-f'', ''webm'', ''/home/user/clip_cropped.webm'']"



text \<open>Two settings documents: one with an out-of-range and an ill-typed value, one with a device.\<close>

definition sample_settings :: "(string \<times> json) list" where
  "sample_settings =
     [(''crop_top'', JInt 5000), (''quality'', JString ''high''),
      (''source'', JString ''/nonexistent/file.mp4'')]"

definition device_settings :: "(string \<times> json) list" where
  "device_settings = [(''source'', JString ''/dev/video0'')]"

section \<open>Properties of the binary64 rounding\<close>

lemma powi_less_cancel: "(2::rat) powi a < 2 powi b \<Longrightarrow> a < b"
  by (metis linorder_not_less one_le_numeral power_int_increasing)

lemma powi_le_mono: "a \<le> b \<Longrightarrow> (2::rat) powi a \<le> 2 powi b"
  by (simp add: power_int_increasing)

lemma binade_bounds:
  assumes "0 < x"
  shows "2 powi binade x \<le> x" and "x < 2 powi (binade x + 1)"
proof -
  have "2 powi binade x \<le> x \<and> x < 2 powi (binade x + 1)"
  proof (cases "1 \<le> x")
    case True
    define n where "n = \<lfloor>x\<rfloor>"
    have n1: "1 \<le> n" using True by (simp add: n_def)
    then have npos: "0 < n" by simp
    have b1: "1 \<le> bitlen n" using npos by (simp add: bitlen_alt_def)
    from bitlen_bounds[OF npos]
    have lo: "2 ^ nat (bitlen n - 1) \<le> n" and hi: "n < 2 ^ nat (bitlen n)" by auto
    have bx: "binade x = bitlen n - 1" using True by (simp add: binade_def n_def)
    have "(2::rat) powi (bitlen n - 1) = of_int (2 ^ nat (bitlen n - 1))"
      using b1 by (simp add: power_int_nonneg_exp)
    also have "\<dots> \<le> of_int n" using lo by (simp only: of_int_le_iff)
    also have "\<dots> \<le> x" by (simp add: n_def)
    finally have A: "2 powi binade x \<le> x" by (simp add: bx)
    have "n + 1 \<le> 2 ^ nat (bitlen n)" using hi by simp
    then have "(of_int (n + 1) :: rat) \<le> of_int (2 ^ nat (bitlen n))"
      by (simp only: of_int_le_iff)
    moreover have "x < of_int (n + 1)" unfolding n_def by linarith
    ultimately have "x < of_int (2 ^ nat (bitlen n))" by linarith
    also have "\<dots> = 2 powi (bitlen n)" using b1 by (simp add: power_int_nonneg_exp)
    finally have B: "x < 2 powi (binade x + 1)" by (simp add: bx)
    from A B show ?thesis by simp
  next
    case False
    define y where "y = 1 / x"
    have xl: "x < 1" using False by simp
    have y1: "1 < y" using assms xl by (simp add: y_def)
    define m where "m = \<lceil>y\<rceil> - 1"
    have m1: "1 \<le> m" using y1 by (simp add: m_def less_ceiling_iff)
    then have mpos: "0 < m" by simp
    have b1: "1 \<le> bitlen m" using mpos by (simp add: bitlen_alt_def)
    from bitlen_bounds[OF mpos]
    have lo: "2 ^ nat (bitlen m - 1) \<le> m" and hi: "m < 2 ^ nat (bitlen m)" by auto
    have bx: "binade x = - bitlen m" using False by (simp add: binade_def m_def y_def)
    have my: "of_int m < y" by (simp add: m_def) linarith
    have ym: "y \<le> of_int (m + 1)" by (simp add: m_def)
    have "m + 1 \<le> 2 ^ nat (bitlen m)" using hi by simp
    then have "(of_int (m + 1) :: rat) \<le> of_int (2 ^ nat (bitlen m))"
      by (simp only: of_int_le_iff)
    with ym have "y \<le> of_int (2 ^ nat (bitlen m))" by linarith
    also have "\<dots> = 2 powi (bitlen m)" using b1 by (simp add: power_int_nonneg_exp)
    finally have "1 / x \<le> 2 powi bitlen m" by (simp add: y_def)
    then have "1 \<le> 2 powi bitlen m * x" using assms by (simp add: field_simps)
    then have A: "2 powi binade x \<le> x"
      by (simp add: bx power_int_minus field_simps)
    have "(2::rat) powi (bitlen m - 1) = of_int (2 ^ nat (bitlen m - 1))"
      using b1 by (simp add: power_int_nonneg_exp)
    also have "\<dots> \<le> of_int m" using lo by (simp only: of_int_le_iff)
    also have "\<dots> < y" by (rule my)
    finally have "2 powi (bitlen m - 1) < 1 / x" by (simp add: y_def)
    then have "2 powi (bitlen m - 1) * x < 1" using assms by (simp add: field_simps)
    moreover have "(2::rat) powi (binade x + 1) = 1 / 2 powi (bitlen m - 1)"
      using power_int_minus_divide[of "2::rat" "bitlen m - 1"] by (simp add: bx)
    moreover have "(0::rat) < 2 powi (bitlen m - 1)" by simp
    ultimately have B: "x < 2 powi (binade x + 1)"
      by (simp add: pos_less_divide_eq mult.commute)
    from A B show ?thesis by simp
  qed
  then show "2 powi binade x \<le> x" and "x < 2 powi (binade x + 1)" by auto
qed

lemma binade_mono:
  assumes "0 < x" "x \<le> y"
  shows "binade x \<le> binade y"
proof -
  have "0 < y" using assms by simp
  have "2 powi binade x \<le> x" using binade_bounds(1)[OF assms(1)] .
  also have "x \<le> y" by fact
  also have "y < 2 powi (binade y + 1)" using binade_bounds(2)[OF \<open>0 < y\<close>] .
  finally have "binade x < binade y + 1" by (rule powi_less_cancel)
  then show ?thesis by simp
qed

lemma round_half_even_upper: "of_int (round_half_even y) \<le> y + 1 / 2"
  unfolding round_half_even_def Let_def
  by (auto simp: not_less) linarith+

lemma round_half_even_lower: "y - 1 / 2 \<le> of_int (round_half_even y)"
  unfolding round_half_even_def Let_def
  by (auto simp: not_less) linarith+

lemma round_half_even_of_int [simp]: "round_half_even (of_int n) = n"
  by (simp add: round_half_even_def)

lemma round_half_even_mono:
  assumes "x \<le> y"
  shows "round_half_even x \<le> round_half_even y"
proof (cases "\<lfloor>x\<rfloor> = \<lfloor>y\<rfloor>")
  case True
  then show ?thesis using assms
    unfolding round_half_even_def Let_def by auto
next
  case False
  then have lt: "\<lfloor>x\<rfloor> + 1 \<le> \<lfloor>y\<rfloor>" using floor_mono[OF assms] by linarith
  have "round_half_even x \<le> \<lfloor>x\<rfloor> + 1"
    unfolding round_half_even_def Let_def by auto
  moreover have "\<lfloor>y\<rfloor> \<le> round_half_even y"
    unfolding round_half_even_def Let_def by auto
  ultimately show ?thesis using lt by linarith
qed


lemma round_half_even_ge: "of_int n \<le> y \<Longrightarrow> n \<le> round_half_even y"
  using round_half_even_mono[of "of_int n" y] by simp

lemma round_half_even_le: "y \<le> of_int n \<Longrightarrow> round_half_even y \<le> n"
  using round_half_even_mono[of y "of_int n"] by simp

lemma ulp_exp_mono: "0 < x \<Longrightarrow> x \<le> y \<Longrightarrow> ulp_exp x \<le> ulp_exp y"
  using binade_mono[of x y] by (simp add: ulp_exp_def)

lemma fl_pos_upper_pow:
  assumes "0 < x"
  shows "fl_pos x \<le> 2 powi (53 + ulp_exp x)"
proof -
  let ?e = "ulp_exp x"
  have p: "(0::rat) < 2 powi ?e" by simp
  have "x < 2 powi (binade x + 1)" using binade_bounds(2)[OF assms] .
  also have "\<dots> \<le> 2 powi (53 + ?e)"
    by (rule powi_le_mono) (simp add: ulp_exp_def)
  also have "\<dots> = 2 powi 53 * 2 powi ?e" by (simp add: power_int_add)
  finally have "x / 2 powi ?e \<le> of_int (2 ^ 53)"
    using p by (simp add: field_simps)
  then have "round_half_even (x / 2 powi ?e) \<le> 2 ^ 53"
    by (rule round_half_even_le)
  then have "(of_int (round_half_even (x / 2 powi ?e)) :: rat) \<le> of_int (2 ^ 53)"
    by (simp only: of_int_le_iff)
  then have "fl_pos x \<le> of_int (2 ^ 53) * 2 powi ?e"
    unfolding fl_pos_def using p by (simp only: mult_le_cancel_right_pos)
  also have "\<dots> = 2 powi (53 + ?e)" by (simp add: power_int_add)
  finally show ?thesis .
qed

lemma fl_pos_lower_pow:
  assumes "0 < x" and "ulp_exp x = binade x - 52"
  shows "2 powi (52 + ulp_exp x) \<le> fl_pos x"
proof -
  let ?e = "ulp_exp x"
  have p: "(0::rat) < 2 powi ?e" by simp
  have "(2::rat) powi 52 * 2 powi ?e = 2 powi (52 + ?e)"
    by (simp add: power_int_add)
  also have "52 + ?e = binade x" using assms(2) by simp
  also have "2 powi binade x \<le> x" using binade_bounds(1)[OF assms(1)] .
  finally have "of_int (2 ^ 52) \<le> x / 2 powi ?e"
    using p by (simp add: field_simps)
  then have "2 ^ 52 \<le> round_half_even (x / 2 powi ?e)"
    by (rule round_half_even_ge)
  then have "(of_int (2 ^ 52) :: rat) \<le> of_int (round_half_even (x / 2 powi ?e))"
    by (simp only: of_int_le_iff)
  then have "of_int (2 ^ 52) * 2 powi ?e \<le> fl_pos x"
    unfolding fl_pos_def using p by (simp only: mult_le_cancel_right_pos)
  moreover have "of_int (2 ^ 52) * 2 powi ?e = (2::rat) powi (52 + ?e)"
    by (simp add: power_int_add)
  ultimately show ?thesis by simp
qed

lemma fl_pos_mono:
  assumes "0 < x" "x \<le> y"
  shows "fl_pos x \<le> fl_pos y"
proof -
  have ypos: "0 < y" using assms by simp
  have le: "ulp_exp x \<le> ulp_exp y" using ulp_exp_mono[OF assms] .
  show ?thesis
  proof (cases "ulp_exp x = ulp_exp y")
    case True
    have p: "(0::rat) < 2 powi ulp_exp y" by simp
    have "x / 2 powi ulp_exp y \<le> y / 2 powi ulp_exp y"
      using assms(2) p by (simp add: divide_right_mono)
    then have "round_half_even (x / 2 powi ulp_exp y) \<le> round_half_even (y / 2 powi ulp_exp y)"
      by (rule round_half_even_mono)
    then have "(of_int (round_half_even (x / 2 powi ulp_exp y)) :: rat)
                 \<le> of_int (round_half_even (y / 2 powi ulp_exp y))"
      by (simp only: of_int_le_iff)
    then show ?thesis
      unfolding fl_pos_def True using p by (simp only: mult_le_cancel_right_pos)
  next
    case False
    with le have lt: "ulp_exp x + 1 \<le> ulp_exp y" by simp
    then have "ulp_exp y = binade y - 52" by (simp add: ulp_exp_def max_def split: if_splits)
    from fl_pos_lower_pow[OF ypos this] have "2 powi (52 + ulp_exp y) \<le> fl_pos y" .
    moreover have "fl_pos x \<le> 2 powi (53 + ulp_exp x)" using fl_pos_upper_pow[OF assms(1)] .
    moreover have "(2::rat) powi (53 + ulp_exp x) \<le> 2 powi (52 + ulp_exp y)"
      by (rule powi_le_mono) (use lt in simp)
    ultimately show ?thesis by linarith
  qed
qed

lemma fl_pos_nonneg: "0 < x \<Longrightarrow> 0 \<le> fl_pos x"
proof -
  assume "0 < x"
  then have "of_int 0 \<le> x / 2 powi ulp_exp x" by simp
  then have "0 \<le> round_half_even (x / 2 powi ulp_exp x)" by (rule round_half_even_ge)
  then show ?thesis by (simp add: fl_pos_def)
qed

lemma fl_nonneg: "0 \<le> x \<Longrightarrow> 0 \<le> fl x"
  by (simp add: fl_def fl_pos_nonneg)

lemma fl_mono:
  assumes "x \<le> y"
  shows "fl x \<le> fl y"
proof -
  consider "0 < x" | "x \<le> 0" "0 \<le> y" | "y < 0" by linarith
  then show ?thesis
  proof cases
    case 1
    then show ?thesis using assms fl_pos_mono[of x y] by (simp add: fl_def)
  next
    case 2
    have "fl x \<le> 0" using 2(1) fl_pos_nonneg[of "- x"] by (auto simp: fl_def)
    moreover have "0 \<le> fl y" using 2(2) by (rule fl_nonneg)
    ultimately show ?thesis by simp
  next
    case 3
    then show ?thesis using assms fl_pos_mono[of "- y" "- x"] by (simp add: fl_def)
  qed
qed


lemma binade_ge:
  assumes "0 < x" "2 powi k \<le> x"
  shows "k \<le> binade x"
proof -
  have "2 powi k \<le> x" by fact
  also have "x < 2 powi (binade x + 1)" using binade_bounds(2)[OF assms(1)] .
  finally have "k < binade x + 1" by (rule powi_less_cancel)
  then show ?thesis by simp
qed

lemma binade_less:
  assumes "0 < x" "x < 2 powi k"
  shows "binade x < k"
proof -
  have "2 powi binade x \<le> x" using binade_bounds(1)[OF assms(1)] .
  also have "x < 2 powi k" by fact
  finally show ?thesis by (rule powi_less_cancel)
qed

lemma fl_pos_of_int:
  assumes "0 < n" "n < 2 ^ 53"
  shows "fl_pos (of_int n) = of_int n"
proof -
  let ?x = "of_int n :: rat"
  have xpos: "0 < ?x" using assms(1) by simp
  have "(2::rat) powi 0 \<le> ?x" using assms(1) by simp
  then have b0: "0 \<le> binade ?x" by (rule binade_ge[OF xpos])
  have "?x < of_int (2 ^ 53)" using assms(2) by (simp only: of_int_less_iff)
  then have "?x < 2 powi 53" by simp
  then have b53: "binade ?x < 53" by (rule binade_less[OF xpos])
  define k where "k = nat (52 - binade ?x)"
  have e: "ulp_exp ?x = - int k" using b0 b53 by (simp add: ulp_exp_def k_def)
  have pk: "(2::rat) powi (- int k) = 1 / 2 ^ k"
    by (simp add: power_int_minus_divide)
  have "?x / 2 powi (- int k) = of_int (n * 2 ^ k)" by (simp add: pk)
  then have "round_half_even (?x / 2 powi (- int k)) = n * 2 ^ k"
    by (simp only: round_half_even_of_int)
  then show ?thesis by (simp add: fl_pos_def e pk)
qed

lemma fl_of_int:
  assumes "\<bar>n\<bar> < 2 ^ 53"
  shows "fl (of_int n) = of_int n"
proof -
  consider "n = 0" | "0 < n" | "n < 0" by linarith
  then show ?thesis
  proof cases
    case 1 then show ?thesis by (simp add: fl_def)
  next
    case 2 then show ?thesis using assms fl_pos_of_int[of n] by (simp add: fl_def)
  next
    case 3 then show ?thesis using assms fl_pos_of_int[of "- n"] by (simp add: fl_def)
  qed
qed

lemma half_ulp_le:
  assumes "0 < x"
  shows "2 powi (binade x - 52) / 2 \<le> x * unit_roundoff"
proof -
  have h1: "(2::rat) powi (binade x - 52) = 2 powi (binade x - 53) * 2"
    using power_int_add[of "2::rat" "binade x - 53" 1] by simp
  have h2: "(2::rat) powi (binade x - 53) = 2 powi binade x * unit_roundoff"
    unfolding unit_roundoff_def using power_int_add[of "2::rat" "binade x" "- 53"] by simp
  have h3: "2 powi binade x * unit_roundoff \<le> x * unit_roundoff"
    by (rule mult_right_mono[OF binade_bounds(1)[OF assms]]) (simp add: unit_roundoff_def)
  from h1 have "(2::rat) powi (binade x - 52) / 2 = 2 powi (binade x - 53)" by simp
  with h2 h3 show ?thesis by simp
qed

lemma normal_ulp_exp:
  assumes "2 powi (- 1022) \<le> x"
  shows "0 < x" and "ulp_exp x = binade x - 52"
proof -
  show xpos: "0 < x"
    using assms zero_less_power_int[of "2::rat" "- 1022"] by linarith
  have "- 1022 \<le> binade x" using assms by (rule binade_ge[OF xpos])
  then show "ulp_exp x = binade x - 52" by (simp add: ulp_exp_def)
qed

lemma fl_upper:
  assumes "2 powi (- 1022) \<le> x"
  shows "fl x \<le> x * (1 + unit_roundoff)"
proof -
  note xpos = normal_ulp_exp(1)[OF assms] and e = normal_ulp_exp(2)[OF assms]
  let ?e = "binade x - 52"
  have p: "(0::rat) < 2 powi ?e" by simp
  have "of_int (round_half_even (x / 2 powi ?e)) \<le> x / 2 powi ?e + 1 / 2"
    by (rule round_half_even_upper)
  then have "of_int (round_half_even (x / 2 powi ?e)) * 2 powi ?e
               \<le> (x / 2 powi ?e + 1 / 2) * 2 powi ?e"
    using p by (simp only: mult_le_cancel_right_pos)
  also have "\<dots> = x + 2 powi ?e / 2" using p by (simp add: field_simps)
  finally have A: "fl_pos x \<le> x + 2 powi ?e / 2" by (simp add: fl_pos_def e)
  have "fl x = fl_pos x" using xpos by (simp add: fl_def)
  with A half_ulp_le[OF xpos] show ?thesis by (simp add: algebra_simps)
qed

lemma fl_lower:
  assumes "2 powi (- 1022) \<le> x"
  shows "x * (1 - unit_roundoff) \<le> fl x"
proof -
  note xpos = normal_ulp_exp(1)[OF assms] and e = normal_ulp_exp(2)[OF assms]
  let ?e = "binade x - 52"
  have p: "(0::rat) < 2 powi ?e" by simp
  have "x / 2 powi ?e - 1 / 2 \<le> of_int (round_half_even (x / 2 powi ?e))"
    by (rule round_half_even_lower)
  then have "(x / 2 powi ?e - 1 / 2) * 2 powi ?e
               \<le> of_int (round_half_even (x / 2 powi ?e)) * 2 powi ?e"
    using p by (simp only: mult_le_cancel_right_pos)
  moreover have "(x / 2 powi ?e - 1 / 2) * 2 powi ?e = x - 2 powi ?e / 2"
    using p by (simp add: field_simps)
  ultimately have A: "x - 2 powi ?e / 2 \<le> fl_pos x" by (simp add: fl_pos_def e)
  have "fl x = fl_pos x" using xpos by (simp add: fl_def)
  with A half_ulp_le[OF xpos] show ?thesis by (simp add: algebra_simps)
qed

section \<open>Crop overlay\<close>

lemma trunc_mono: "x \<le> y \<Longrightarrow> py_int (PFloat x) \<le> py_int (PFloat y)"
proof -
  assume xy: "x \<le> y"
  consider "0 \<le> x" | "x < 0" "0 \<le> y" | "y < 0" by linarith
  then show ?thesis
  proof cases
    case 1
    then show ?thesis using xy by (simp add: floor_mono)
  next
    case 2
    have "\<lceil>x\<rceil> \<le> 0" using 2(1) by (simp add: ceiling_le_iff)
    moreover have "0 \<le> \<lfloor>y\<rfloor>" using 2(2) by simp
    ultimately have "\<lceil>x\<rceil> \<le> \<lfloor>y\<rfloor>" by linarith
    then show ?thesis using 2 by simp
  next
    case 3
    then show ?thesis using xy by (simp add: ceiling_mono)
  qed
qed

lemma mapped_mono:
  assumes "0 \<le> s" "a \<le> b"
  shows "py_int (py_mul_int a (PFloat s)) \<le> py_int (py_mul_int b (PFloat s))"
proof -
  have "fl (of_int a) \<le> fl (of_int b)" using assms(2) by (intro fl_mono) simp
  then have "fl (of_int a) * s \<le> fl (of_int b) * s" using assms(1) by (rule mult_right_mono)
  then have "fl (fl (of_int a) * s) \<le> fl (fl (of_int b) * s)" by (rule fl_mono)
  then show ?thesis unfolding py_mul_int.simps by (rule trunc_mono)
qed

lemma py_truediv_nonneg: "0 \<le> a \<Longrightarrow> 0 < b \<Longrightarrow> 0 \<le> py_truediv a b"
  unfolding py_truediv_def by (rule fl_nonneg) simp

text \<open>
  Claim C10. For a fixed positive original resolution and a fixed positive preview size
  the mapped positions are monotone in the crop distances: the top and left positions do
  not decrease when the top or left distance grows, and the bottom and right positions do
  not increase when the bottom or right distance grows. Rounding to binary64 and
  truncation both preserve the order.
\<close>

theorem mapped_positions_monotone:
  assumes "0 < original_width ov" "0 < original_height ov" "0 < width ov" "0 < height ov"
    and "a \<le> b"
  shows "top_pos (ov\<lparr>crop_top := a\<rparr>) \<le> top_pos (ov\<lparr>crop_top := b\<rparr>) \<and>
         left_pos (ov\<lparr>crop_left := a\<rparr>) \<le> left_pos (ov\<lparr>crop_left := b\<rparr>) \<and>
         bottom_pos (ov\<lparr>crop_bottom := b\<rparr>) \<le> bottom_pos (ov\<lparr>crop_bottom := a\<rparr>) \<and>
         right_pos (ov\<lparr>crop_right := b\<rparr>) \<le> right_pos (ov\<lparr>crop_right := a\<rparr>)"
proof -
  have sx: "0 \<le> py_truediv (width ov) (original_width ov)"
    using assms by (intro py_truediv_nonneg) simp_all
  have sy: "0 \<le> py_truediv (height ov) (original_height ov)"
    using assms by (intro py_truediv_nonneg) simp_all
  show ?thesis
    using mapped_mono[OF sx \<open>a \<le> b\<close>] mapped_mono[OF sy \<open>a \<le> b\<close>] assms(1,2)
    by (simp add: top_pos_def left_pos_def bottom_pos_def right_pos_def scale_x_def scale_y_def)
qed

lemma example_positions:
  "top_pos example_overlay = 5" "left_pos example_overlay = 10"
  "bottom_pos example_overlay = 240" "right_pos example_overlay = 320"
  by code_simp+

text \<open>
  The roundings are visible: \<^verbatim>\<open>int(49 * (1 / 49))\<close> is 0 in Python, as it is here,
  although the exact product is 1.
\<close>

lemma rounding_is_visible: "py_int (py_mul_int 49 (PFloat (py_truediv 1 49))) = 0"
  by code_simp

lemma example_mono_eval:
  "top_pos (example_overlay\<lparr>crop_top := 11\<rparr>) = 5"
  "top_pos (example_overlay\<lparr>crop_top := 12\<rparr>) = 6"
  "bottom_pos (example_overlay\<lparr>crop_bottom := 11\<rparr>) = 235"
  "bottom_pos (example_overlay\<lparr>crop_bottom := 12\<rparr>) = 234"
  by code_simp+

lemma example_fields:
  "original_width example_overlay = 640" "original_height example_overlay = 480"
  "width example_overlay = 320" "height example_overlay = 240"
  "crop_top example_overlay = 10" "crop_bottom example_overlay = 0"
  "crop_left example_overlay = 20" "crop_right example_overlay = 0"
  by (simp_all add: example_overlay_def)

theorem mapped_positions_monotone_witness:
  "top_pos (example_overlay\<lparr>crop_top := 11\<rparr>) \<le> top_pos (example_overlay\<lparr>crop_top := 12\<rparr>) \<and>
   bottom_pos (example_overlay\<lparr>crop_bottom := 12\<rparr>) \<le> bottom_pos (example_overlay\<lparr>crop_bottom := 11\<rparr>) \<and>
   top_pos (example_overlay\<lparr>crop_top := 12\<rparr>) = 6 \<and>
   bottom_pos (example_overlay\<lparr>crop_bottom := 12\<rparr>) = 234"
  using mapped_positions_monotone[of example_overlay 11 12]
  by (simp add: example_fields example_mono_eval)

lemma roundoff_small: "0 < unit_roundoff" "unit_roundoff \<le> 1 / 2 ^ 53"
  by (simp_all add: unit_roundoff_def power_int_minus_divide)

lemma min_normal_le: "- 1022 \<le> k \<Longrightarrow> (2::rat) powi (- 1022) \<le> 2 powi k"
  by (rule powi_le_mono)

lemma fl_zero [simp]: "fl 0 = 0"
  by (simp add: fl_def)

lemma mapped_upper:
  assumes d: "0 \<le> d" "d < 2 ^ 31" and p: "0 \<le> p" "p < 2 ^ 31" and N: "0 < N" "N < 2 ^ 31"
  shows "of_int (py_int (py_mul_int d (PFloat (py_truediv p N))))
           \<le> of_int d * (of_int p / of_int N) * (1 + unit_roundoff) * (1 + unit_roundoff)"
proof -
  define q :: rat where "q = of_int p / of_int N"
  define s where "s = fl q"
  define u where "u = unit_roundoff"
  have u0: "0 < u" by (simp add: u_def roundoff_small)
  have q0: "0 \<le> q" using p N by (simp add: q_def)
  have fd: "fl (of_int d) = of_int d"
    using d by (intro fl_of_int) simp
  have s0: "0 \<le> s" unfolding s_def using q0 by (rule fl_nonneg)
  have c0: "0 \<le> fl (of_int d * s)" using d s0 by (intro fl_nonneg) simp
  have main: "fl (of_int d * s) \<le> of_int d * q * (1 + u) * (1 + u)"
  proof (cases "p = 0 \<or> d = 0")
    case True
    then show ?thesis by (auto simp: s_def q_def)
  next
    case False
    then have p1: "1 \<le> p" and d1: "1 \<le> d" using p d by auto
    have "(1::rat) / 2 ^ 31 \<le> 1 / of_int N"
      using N by (intro divide_left_mono) (simp_all add: of_int_le_numeral_power_cancel_iff[symmetric] del: of_int_le_numeral_power_cancel_iff)
    also have "\<dots> \<le> q" unfolding q_def using p1 N by (intro divide_right_mono) simp_all
    finally have qlow: "2 powi (- 31) \<le> q" by (simp add: power_int_minus_divide)
    have qn: "2 powi (- 1022) \<le> q" using min_normal_le[of "- 31"] qlow by simp
    have su: "s \<le> q * (1 + u)" unfolding s_def u_def using qn by (rule fl_upper)
    have "q * (1 - u) \<le> s" unfolding s_def u_def using qn by (rule fl_lower)
    moreover have "(1::rat) / 2 \<le> 1 - u" using roundoff_small(2) by (simp add: u_def)
    then have "q * (1 / 2) \<le> q * (1 - u)" using q0 by (rule mult_left_mono)
    moreover have "(2::rat) powi (- 32) = 2 powi (- 31) * (1 / 2)"
      by (simp add: power_int_minus_divide)
    moreover have "2 powi (- 31) * (1 / 2) \<le> q * (1 / 2)" using qlow by simp
    ultimately have slow: "2 powi (- 32) \<le> s" by linarith
    have "s \<le> of_int d * s" using d1 s0 by (simp add: mult_le_cancel_right1)
    with slow have "2 powi (- 32) \<le> of_int d * s" by linarith
    then have "2 powi (- 1022) \<le> of_int d * s" using min_normal_le[of "- 32"] by simp
    then have "fl (of_int d * s) \<le> of_int d * s * (1 + u)" unfolding u_def by (rule fl_upper)
    also have "\<dots> \<le> of_int d * (q * (1 + u)) * (1 + u)"
      using su d u0 by (intro mult_right_mono mult_left_mono) simp_all
    finally show ?thesis by (simp add: mult.assoc)
  qed
  have "of_int (py_int (py_mul_int d (PFloat (py_truediv p N)))) = (of_int \<lfloor>fl (of_int d * s)\<rfloor> :: rat)"
    using c0 by (simp add: py_truediv_def fd s_def q_def)
  also have "\<dots> \<le> fl (of_int d * s)" by simp
  also note main
  finally show ?thesis by (simp add: q_def u_def)
qed

lemma mapped_nonneg:
  assumes "0 \<le> d" "0 \<le> s"
  shows "0 \<le> py_int (py_mul_int d (PFloat s))"
  using mapped_mono[OF assms(2,1)] by simp

lemma mapped_zero [simp]: "py_int (py_mul_int 0 (PFloat s)) = 0"
  by simp

lemma mapped_sum_le:
  assumes a: "0 \<le> a" and b: "0 \<le> b" and ab: "a + b \<le> N"
    and p: "0 \<le> p" "p < 2 ^ 31" and N: "0 < N" "N < 2 ^ 31"
  shows "py_int (py_mul_int a (PFloat (py_truediv p N))) +
         py_int (py_mul_int b (PFloat (py_truediv p N))) \<le> p"
proof -
  define u where "u = unit_roundoff"
  define q :: rat where "q = of_int p / of_int N"
  let ?A = "py_int (py_mul_int a (PFloat (py_truediv p N)))"
  let ?B = "py_int (py_mul_int b (PFloat (py_truediv p N)))"
  have u0: "0 < u" and u1: "u \<le> 1 / 2 ^ 53" unfolding u_def by (rule roundoff_small)+
  have q0: "0 \<le> q" using p N by (simp add: q_def)
  have a31: "a < 2 ^ 31" and b31: "b < 2 ^ 31" using a b ab N by linarith+
  have A: "of_int ?A \<le> of_int a * q * (1 + u) * (1 + u)"
    unfolding q_def u_def by (rule mapped_upper[OF a a31 p N])
  have B: "of_int ?B \<le> of_int b * q * (1 + u) * (1 + u)"
    unfolding q_def u_def by (rule mapped_upper[OF b b31 p N])
  have "of_int (?A + ?B) \<le> (of_int a + of_int b) * (q * ((1 + u) * (1 + u)))"
    using A B by (simp add: algebra_simps)
  also have "\<dots> \<le> of_int N * (q * ((1 + u) * (1 + u)))"
  proof (rule mult_right_mono)
    show "(of_int a + of_int b :: rat) \<le> of_int N" using ab by (simp flip: of_int_add)
    show "0 \<le> q * ((1 + u) * (1 + u))" using q0 u0 by simp
  qed
  also have "\<dots> = of_int p * ((1 + u) * (1 + u))" using N by (simp add: q_def)
  also have "\<dots> = of_int p + of_int p * (2 * u + u * u)" by (simp add: algebra_simps)
  also have "\<dots> < of_int p + 1"
  proof -
    have "u * u \<le> u" using u0 u1 by (simp add: mult_le_cancel_right2) 
    then have "2 * u + u * u \<le> 3 / 2 ^ 53" using u1 by simp
    moreover have "(of_int p :: rat) \<le> 2 ^ 31" using p by (simp add: of_int_le_numeral_power_cancel_iff[symmetric] del: of_int_le_numeral_power_cancel_iff)
    ultimately have "of_int p * (2 * u + u * u) \<le> 2 ^ 31 * (3 / 2 ^ 53)"
      using p u0 by (intro mult_mono) simp_all
    also have "\<dots> < (1::rat)" by simp
    finally show ?thesis by simp
  qed
  finally have "(of_int (?A + ?B) :: rat) < of_int (p + 1)" by simp
  then have "?A + ?B < p + 1" by (simp only: of_int_less_iff)
  then show ?thesis by simp
qed

lemma overlay_order:
  assumes W: "0 < original_width ov" "original_width ov < 2 ^ 31"
    and H: "0 < original_height ov" "original_height ov < 2 ^ 31"
    and w: "0 \<le> width ov" "width ov < 2 ^ 31"
    and h: "0 \<le> height ov" "height ov < 2 ^ 31"
    and c: "0 \<le> crop_top ov" "0 \<le> crop_bottom ov" "0 \<le> crop_left ov" "0 \<le> crop_right ov"
    and s: "crop_top ov + crop_bottom ov < original_height ov"
           "crop_left ov + crop_right ov < original_width ov"
  shows "0 \<le> top_pos ov" "top_pos ov \<le> bottom_pos ov" "bottom_pos ov \<le> height ov"
    "0 \<le> left_pos ov" "left_pos ov \<le> right_pos ov" "right_pos ov \<le> width ov"
proof -
  have sx: "0 \<le> py_truediv (width ov) (original_width ov)"
    using W w by (intro py_truediv_nonneg)
  have sy: "0 \<le> py_truediv (height ov) (original_height ov)"
    using H h by (intro py_truediv_nonneg)
  have v: "py_int (py_mul_int (crop_top ov) (PFloat (py_truediv (height ov) (original_height ov)))) +
        py_int (py_mul_int (crop_bottom ov) (PFloat (py_truediv (height ov) (original_height ov))))
          \<le> height ov"
    using c s h H by (intro mapped_sum_le) simp_all
  have hz: "py_int (py_mul_int (crop_left ov) (PFloat (py_truediv (width ov) (original_width ov)))) +
        py_int (py_mul_int (crop_right ov) (PFloat (py_truediv (width ov) (original_width ov))))
          \<le> width ov"
    using c s w W by (intro mapped_sum_le) simp_all
  show "0 \<le> top_pos ov" "top_pos ov \<le> bottom_pos ov" "bottom_pos ov \<le> height ov"
    using mapped_nonneg[OF c(1) sy] mapped_nonneg[OF c(2) sy] v H
    by (simp_all add: top_pos_def bottom_pos_def scale_y_def)
  show "0 \<le> left_pos ov" "left_pos ov \<le> right_pos ov" "right_pos ov \<le> width ov"
    using mapped_nonneg[OF c(3) sx] mapped_nonneg[OF c(4) sx] hz W
    by (simp_all add: left_pos_def right_pos_def scale_x_def)
qed

lemma pos_of_zero_crop:
  "0 < original_height ov \<Longrightarrow> crop_top ov = 0 \<Longrightarrow> top_pos ov = 0"
  "0 < original_height ov \<Longrightarrow> crop_bottom ov = 0 \<Longrightarrow> bottom_pos ov = height ov"
  "0 < original_width ov \<Longrightarrow> crop_left ov = 0 \<Longrightarrow> left_pos ov = 0"
  "0 < original_width ov \<Longrightarrow> crop_right ov = 0 \<Longrightarrow> right_pos ov = width ov"
  by (simp_all add: top_pos_def bottom_pos_def left_pos_def right_pos_def scale_x_def scale_y_def)

lemma five_regions:
  fixes T B L R w h :: int
  assumes "0 \<le> T" "T \<le> B" "B \<le> h" "0 \<le> L" "L \<le> R" "R \<le> w"
  shows "cover_count [(0, 0, w, T), (0, B, w, h - B), (0, T, L, B - T), (R, T, w - R, B - T),
                      (L, T, R - L, B - T)] (x, y)
         = (if in_rect (x, y) (0, 0, w, h) then 1 else 0)"
  using assms by (auto simp: cover_count_def)

lemma cover_count_drop_empty:
  "(\<not> c \<Longrightarrow> \<not> in_rect p r) \<Longrightarrow>
   cover_count ((if c then [r] else []) @ rs) p = cover_count (r # rs) p"
  by (auto simp: cover_count_def)

lemma occlusion_rects_eq:
  "occlusion_rects ov =
     (if 0 < crop_top ov then [(0, 0, width ov, top_pos ov)] else []) @
     (if 0 < crop_bottom ov then [(0, bottom_pos ov, width ov, height ov - bottom_pos ov)] else []) @
     (if 0 < crop_left ov then [(0, side_top ov, left_pos ov, side_bottom ov - side_top ov)] else []) @
     (if 0 < crop_right ov
      then [(right_pos ov, side_top ov, width ov - right_pos ov, side_bottom ov - side_top ov)]
      else [])"
  by (simp add: occlusion_rects_def occlusion_def)

text \<open>
  Claim C2. Let the original resolution be positive, the crop distances non-negative with
  top + bottom below the original height and left + right below the original width, and
  all sizes values of a C \<open>int\<close>. Then every pixel of the preview surface lies in exactly
  one of the occlusion rectangles and the centre tile, and no pixel outside the surface
  lies in any of them. The rectangles are: full width above the mapped top offset, full
  width below the mapped bottom offset, and left and right rectangles that span exactly
  the rows between the two offsets; a side whose crop distance is zero has no rectangle.
\<close>

theorem occlusion_partition:
  assumes W: "0 < original_width ov" "original_width ov < 2 ^ 31"
    and H: "0 < original_height ov" "original_height ov < 2 ^ 31"
    and w: "0 \<le> width ov" "width ov < 2 ^ 31"
    and h: "0 \<le> height ov" "height ov < 2 ^ 31"
    and c: "0 \<le> crop_top ov" "0 \<le> crop_bottom ov" "0 \<le> crop_left ov" "0 \<le> crop_right ov"
    and s: "crop_top ov + crop_bottom ov < original_height ov"
           "crop_left ov + crop_right ov < original_width ov"
  shows "(\<forall>p. cover_count (occlusion_rects ov @ [center_tile ov]) p =
              (if in_rect p (surface ov) then 1 else 0)) \<and>
         occlusion_rects ov =
           (if 0 < crop_top ov then [(0, 0, width ov, top_pos ov)] else []) @
           (if 0 < crop_bottom ov
            then [(0, bottom_pos ov, width ov, height ov - bottom_pos ov)] else []) @
           (if 0 < crop_left ov
            then [(0, top_pos ov, left_pos ov, bottom_pos ov - top_pos ov)] else []) @
           (if 0 < crop_right ov
            then [(right_pos ov, top_pos ov, width ov - right_pos ov, bottom_pos ov - top_pos ov)]
            else [])"
proof -
  note ord = overlay_order[OF assms]
  have z: "\<not> 0 < crop_top ov \<Longrightarrow> top_pos ov = 0"
    "\<not> 0 < crop_bottom ov \<Longrightarrow> bottom_pos ov = height ov"
    "\<not> 0 < crop_left ov \<Longrightarrow> left_pos ov = 0"
    "\<not> 0 < crop_right ov \<Longrightarrow> right_pos ov = width ov"
    using c W H pos_of_zero_crop[of ov] by auto
  have st: "side_top ov = top_pos ov" and sb: "side_bottom ov = bottom_pos ov"
    using z by (auto simp: side_top_def side_bottom_def)
  have ct: "center_tile ov =
      (left_pos ov, top_pos ov, right_pos ov - left_pos ov, bottom_pos ov - top_pos ov)"
    using z by (auto simp: center_tile_def st sb Let_def)
  have rects: "occlusion_rects ov =
           (if 0 < crop_top ov then [(0, 0, width ov, top_pos ov)] else []) @
           (if 0 < crop_bottom ov
            then [(0, bottom_pos ov, width ov, height ov - bottom_pos ov)] else []) @
           (if 0 < crop_left ov
            then [(0, top_pos ov, left_pos ov, bottom_pos ov - top_pos ov)] else []) @
           (if 0 < crop_right ov
            then [(right_pos ov, top_pos ov, width ov - right_pos ov, bottom_pos ov - top_pos ov)]
            else [])"
    by (simp only: occlusion_rects_eq st sb)
  have "cover_count (occlusion_rects ov @ [center_tile ov]) p =
          (if in_rect p (surface ov) then 1 else 0)" for p
  proof -
    obtain x y where p: "p = (x, y)" by (cases p)
    have "cover_count (occlusion_rects ov @ [center_tile ov]) p =
          cover_count [(0, 0, width ov, top_pos ov),
                       (0, bottom_pos ov, width ov, height ov - bottom_pos ov),
                       (0, top_pos ov, left_pos ov, bottom_pos ov - top_pos ov),
                       (right_pos ov, top_pos ov, width ov - right_pos ov, bottom_pos ov - top_pos ov),
                       (left_pos ov, top_pos ov, right_pos ov - left_pos ov, bottom_pos ov - top_pos ov)] p"
      unfolding rects ct p
      by (cases "0 < crop_top ov"; cases "0 < crop_bottom ov"; cases "0 < crop_left ov";
          cases "0 < crop_right ov"; simp add: cover_count_def z)
    also have "\<dots> = (if in_rect p (surface ov) then 1 else 0)"
      unfolding p surface_def by (rule five_regions[OF ord])
    finally show ?thesis .
  qed
  then have "\<forall>p. cover_count (occlusion_rects ov @ [center_tile ov]) p =
              (if in_rect p (surface ov) then 1 else 0)" by (rule allI)
  then show ?thesis using rects by (rule conjI)
qed

theorem occlusion_partition_witness:
  "cover_count (occlusion_rects example_overlay @ [center_tile example_overlay]) (3, 100) = 1 \<and>
   cover_count (occlusion_rects example_overlay @ [center_tile example_overlay]) (320, 100) = 0 \<and>
   occlusion_rects example_overlay = [(0, 0, 320, 5), (0, 5, 10, 235)]"
  using occlusion_partition[of example_overlay]
  by (simp add: example_fields example_positions surface_def)
     (simp add: cover_count_def center_tile_def side_top_def side_bottom_def Let_def
        example_fields example_positions)






section \<open>Conversion runner\<close>

lemma py_str_int_small:
  "py_str_int 0 = ''0''" "py_str_int 1 = ''1''" "py_str_int 10 = ''10''" "py_str_int 20 = ''20''"
  "py_str_int 30 = ''30''" "py_str_int 2500 = ''2500''" "py_str_int (- 15) = ''-15''"
  by code_simp+

text \<open>
  Claim C6. For every return code \<open>c\<close> of the encoder process the last signal of the run is
  the \<^verbatim>\<open>finished\<close> signal: success for \<open>c = 0\<close>, the message "Conversion stopped by
  user" for \<open>c = -15\<close>, and otherwise a failure whose message ends with the decimal text of
  \<open>c\<close>. Read as outcomes these are Succeeded, Cancelled and Failed, exactly one for every
  \<open>c\<close>, and no signal before the last one is terminal.
\<close>

theorem exit_code_outcome:
  "(c = 0 \<longrightarrow> last (ConversionThread_run strip (Exited ls c)) =
        Finished True ''Conversion completed successfully'') \<and>
   (c = - 15 \<longrightarrow> last (ConversionThread_run strip (Exited ls c)) =
        Finished False ''Conversion stopped by user'') \<and>
   (c \<noteq> 0 \<and> c \<noteq> - 15 \<longrightarrow> last (ConversionThread_run strip (Exited ls c)) =
        Finished False (''Conversion failed with code '' @ py_str_int c)) \<and>
   outcome_of (last (ConversionThread_run strip (Exited ls c))) =
        Some (if c = 0 then Succeeded else if c = - 15 then Cancelled else Failed) \<and>
   (\<forall>s \<in> set (butlast (ConversionThread_run strip (Exited ls c))). outcome_of s = None)"
  by (auto simp: finished_signal_def)

theorem exit_code_outcome_witness:
  "last (ConversionThread_run id (Exited [''frame=1''] 1)) =
      Finished False ''Conversion failed with code 1'' \<and>
   outcome_of (last (ConversionThread_run id (Exited [''frame=1''] 1))) = Some Failed \<and>
   outcome_of (last (ConversionThread_run id (Exited [''frame=1''] 0))) = Some Succeeded \<and>
   outcome_of (last (ConversionThread_run id (Exited [''frame=1''] (- 15)))) = Some Cancelled \<and>
   outcome_of (hd (ConversionThread_run id (Exited [''frame=1''] 1))) = None"
  using exit_code_outcome[of 1 id "[''frame=1'']"] exit_code_outcome[of 0 id "[''frame=1'']"]
    exit_code_outcome[of "- 15" id "[''frame=1'']"]
  by (simp add: py_str_int_small)

section \<open>Command builder\<close>

lemma option_pairs_append:
  "even (length xs) \<Longrightarrow> option_pairs (xs @ ys) = option_pairs xs @ option_pairs ys"
  by (induction xs rule: option_pairs.induct) auto

lemma build_Some_options:
  assumes "build_ffmpeg_command e st = Inr (Some cmd)"
  obtains src inp where "current_source st = Some src" "input_args e src = Some inp"
    "ffmpeg_options cmd =
       option_pairs inp @ option_pairs (crop_args st) @ option_pairs (video_args st) @
       option_pairs (rate_args st) @ option_pairs (audio_args st) @ [(''-f'', ''webm'')] @
       (if startswith_any src [''video='', ''/dev/''] then [(''-t'', ''30'')] else [])"
proof -
  from assms obtain src where src: "current_source st = Some src"
    by (auto simp: build_ffmpeg_command_def split: option.splits)
  from assms src obtain inp where inp: "input_args e src = Some inp"
    by (auto simp: build_ffmpeg_command_def Let_def split: option.splits)
  from assms src inp obtain out where
    cmd: "cmd = [''ffmpeg'', ''-y''] @ inp @ crop_args st @ video_args st @ rate_args st @
            audio_args st @ [''-f'', ''webm''] @
            (if startswith_any src [''video='', ''/dev/''] then [''-t'', ''30''] else []) @ [out]"
    by (auto simp: build_ffmpeg_command_def Let_def split: sum.splits)
  have ev: "even (length inp)" "even (length (crop_args st))" "even (length (video_args st))"
    "even (length (rate_args st))" "even (length (audio_args st))"
    using inp
    by (auto simp: input_args_def crop_args_def video_args_def rate_args_def audio_args_def
        Let_def split: if_splits)
  have "butlast (drop 2 cmd) = inp @ crop_args st @ video_args st @ rate_args st @
            audio_args st @ [''-f'', ''webm''] @
            (if startswith_any src [''video='', ''/dev/''] then [''-t'', ''30''] else [])"
    unfolding cmd by (simp add: butlast_append)
  then have "ffmpeg_options cmd =
       option_pairs inp @ option_pairs (crop_args st) @ option_pairs (video_args st) @
       option_pairs (rate_args st) @ option_pairs (audio_args st) @ [(''-f'', ''webm'')] @
       (if startswith_any src [''video='', ''/dev/''] then [(''-t'', ''30'')] else [])"
    using ev by (simp add: ffmpeg_options_def option_pairs_append)
  with src inp show thesis by (rule that)
qed

lemma input_keys:
  "input_args e src = Some inp \<Longrightarrow> fst ` set (option_pairs inp) \<subseteq> {''-f'', ''-i''}"
  by (auto simp: input_args_def split: if_splits)

lemma video_keys: "fst ` set (option_pairs (video_args st)) \<subseteq> {''-c:v'', ''-row-mt'', ''-tile-columns''}"
  by (auto simp: video_args_def)

lemma audio_keys: "fst ` set (option_pairs (audio_args st)) \<subseteq> {''-c:a'', ''-b:a''}"
  by (auto simp: audio_args_def)

lemma rate_keys: "fst ` set (option_pairs (rate_args st)) \<subseteq> {''-b:v'', ''-crf''}"
  by (auto simp: rate_args_def)

lemma crop_keys: "fst ` set (option_pairs (crop_args st)) \<subseteq> {''-vf''}"
  by (auto simp: crop_args_def Let_def)

lemma sample_spins:
  "spin_value (crop_top_spin sample_app) = 10" "spin_value (crop_bottom_spin sample_app) = 0"
  "spin_value (crop_left_spin sample_app) = 20" "spin_value (crop_right_spin sample_app) = 0"
  "spin_value (quality_spin sample_app) = 30" "spin_value (bitrate_spin sample_app) = 0"
  "video_codec_combo sample_app = VP9" "audio_codec_combo sample_app = Opus"
  "current_source sample_app = Some ''/videos/clip.mp4''"
  "output_path sample_app = JString ''/home/user''"
  by (simp_all add: sample_app_def init_ui_def sample_env_def setValue_def setRange_def QSpinBox_new_def)

lemma sample_command: "build_ffmpeg_command sample_env sample_app = Inr (Some sample_cmd)"
  by (simp add: build_ffmpeg_command_def sample_spins input_args_def output_file_def
      startswith_any_def crop_args_def video_args_def rate_args_def audio_args_def filter_str_def
      py_str_int_small sample_cmd_def Let_def sample_env_def)

lemma sample_command_bitrate:
  "build_ffmpeg_command sample_env sample_app_bitrate = Inr (Some sample_cmd_bitrate)"
  by (simp add: build_ffmpeg_command_def sample_app_bitrate_def sample_spins input_args_def
      output_file_def startswith_any_def crop_args_def video_args_def rate_args_def audio_args_def
      filter_str_def py_str_int_small sample_cmd_bitrate_def Let_def sample_env_def
      setValue_def init_ui_def sample_app_def setRange_def QSpinBox_new_def)

text \<open>
  Claim C3. Whenever the builder returns an argument list, the list has a \<^verbatim>\<open>-vf\<close> option
  if and only if at least one of the four crop distances is not zero, and the value of that
  option is the text \<^verbatim>\<open>crop=iw-L-R:ih-T-B:L:T\<close> with the current left, right, top and
  bottom values written in decimal.
\<close>

theorem crop_filter_iff:
  assumes "build_ffmpeg_command e st = Inr (Some cmd)"
  shows "((\<exists>f. (''-vf'', f) \<in> set (ffmpeg_options cmd)) \<longleftrightarrow>
            (spin_value (crop_top_spin st) \<noteq> 0 \<or> spin_value (crop_bottom_spin st) \<noteq> 0 \<or>
             spin_value (crop_left_spin st) \<noteq> 0 \<or> spin_value (crop_right_spin st) \<noteq> 0)) \<and>
         (\<forall>f. (''-vf'', f) \<in> set (ffmpeg_options cmd) \<longrightarrow>
            f = ''crop=iw-'' @ py_str_int (spin_value (crop_left_spin st)) @ ''-'' @
                py_str_int (spin_value (crop_right_spin st)) @ '':ih-'' @
                py_str_int (spin_value (crop_top_spin st)) @ ''-'' @
                py_str_int (spin_value (crop_bottom_spin st)) @ '':'' @
                py_str_int (spin_value (crop_left_spin st)) @ '':'' @
                py_str_int (spin_value (crop_top_spin st)))"
proof -
  from assms obtain src inp where inp: "input_args e src = Some inp" and
    opts: "ffmpeg_options cmd =
       option_pairs inp @ option_pairs (crop_args st) @ option_pairs (video_args st) @
       option_pairs (rate_args st) @ option_pairs (audio_args st) @ [(''-f'', ''webm'')] @
       (if startswith_any src [''video='', ''/dev/''] then [(''-t'', ''30'')] else [])"
    by (rule build_Some_options)
  have others: "(''-vf'', f) \<notin> set (option_pairs inp)" "(''-vf'', f) \<notin> set (option_pairs (video_args st))"
    "(''-vf'', f) \<notin> set (option_pairs (rate_args st))" "(''-vf'', f) \<notin> set (option_pairs (audio_args st))" for f
    using input_keys[OF inp] video_keys[of st] rate_keys[of st] audio_keys[of st]
    by (auto simp: image_subset_iff)
  have mem: "(''-vf'', f) \<in> set (ffmpeg_options cmd) \<longleftrightarrow> (''-vf'', f) \<in> set (option_pairs (crop_args st))" for f
    unfolding opts using others[of f] by auto
  show ?thesis
    unfolding mem by (auto simp: crop_args_def Let_def filter_str_def)
qed

theorem crop_filter_iff_witness:
  "build_ffmpeg_command sample_env sample_app = Inr (Some sample_cmd) \<and>
   (''-vf'', ''crop=iw-20-0:ih-10-0:20:10'') \<in> set (ffmpeg_options sample_cmd)"
proof -
  note th = crop_filter_iff[OF sample_command]
  from th obtain f where f: "(''-vf'', f) \<in> set (ffmpeg_options sample_cmd)"
    by (auto simp: sample_spins)
  with th have "f = ''crop=iw-20-0:ih-10-0:20:10''"
    by (simp add: sample_spins py_str_int_small)
  with f sample_command show ?thesis by simp
qed

text \<open>
  Claim C5. Whenever the builder returns an argument list: with a positive bitrate the list
  has the option \<^verbatim>\<open>-b:v\<close> with the bitrate followed by \<^verbatim>\<open>k\<close> and no \<^verbatim>\<open>-crf\<close> option;
  with bitrate zero it has \<^verbatim>\<open>-crf\<close> with the quality, for VP9 also \<^verbatim>\<open>-b:v 0\<close>, and no
  other \<^verbatim>\<open>-b:v\<close> option.
\<close>

theorem rate_control_mode:
  assumes "build_ffmpeg_command e st = Inr (Some cmd)"
  shows "(spin_value (bitrate_spin st) > 0 \<longrightarrow>
            (''-b:v'', py_str_int (spin_value (bitrate_spin st)) @ ''k'') \<in> set (ffmpeg_options cmd) \<and>
            ''-crf'' \<notin> fst ` set (ffmpeg_options cmd)) \<and>
         (spin_value (bitrate_spin st) = 0 \<longrightarrow>
            (''-crf'', py_str_int (spin_value (quality_spin st))) \<in> set (ffmpeg_options cmd) \<and>
            (video_codec_combo st = VP9 \<longrightarrow> (''-b:v'', ''0'') \<in> set (ffmpeg_options cmd)) \<and>
            (\<forall>v. (''-b:v'', v) \<in> set (ffmpeg_options cmd) \<longrightarrow> v = ''0'' \<and> video_codec_combo st = VP9))"
proof -
  from assms obtain src inp where inp: "input_args e src = Some inp" and
    opts: "ffmpeg_options cmd =
       option_pairs inp @ option_pairs (crop_args st) @ option_pairs (video_args st) @
       option_pairs (rate_args st) @ option_pairs (audio_args st) @ [(''-f'', ''webm'')] @
       (if startswith_any src [''video='', ''/dev/''] then [(''-t'', ''30'')] else [])"
    by (rule build_Some_options)
  have others: "(k, v) \<notin> set (option_pairs inp)" "(k, v) \<notin> set (option_pairs (video_args st))"
    "(k, v) \<notin> set (option_pairs (crop_args st))" "(k, v) \<notin> set (option_pairs (audio_args st))"
    if "k = ''-b:v'' \<or> k = ''-crf''" for k v
    using that input_keys[OF inp] video_keys[of st] crop_keys[of st] audio_keys[of st]
    by (auto simp: image_subset_iff)
  have mem: "(k, v) \<in> set (ffmpeg_options cmd) \<longleftrightarrow> (k, v) \<in> set (option_pairs (rate_args st))"
    if "k = ''-b:v'' \<or> k = ''-crf''" for k v
    unfolding opts using others[OF that, of v] that by auto
  have crf: "''-crf'' \<in> fst ` set (ffmpeg_options cmd) \<longleftrightarrow> ''-crf'' \<in> fst ` set (option_pairs (rate_args st))"
    using mem[of "''-crf''"] by (auto simp: image_iff)
  show ?thesis
    unfolding crf mem[of "''-b:v''", simplified] mem[of "''-crf''", simplified]
    by (auto simp: rate_args_def)
qed

theorem rate_control_mode_witness:
  "build_ffmpeg_command sample_env sample_app = Inr (Some sample_cmd) \<and>
   (''-crf'', ''30'') \<in> set (ffmpeg_options sample_cmd) \<and>
   (''-b:v'', ''0'') \<in> set (ffmpeg_options sample_cmd) \<and>
   build_ffmpeg_command sample_env sample_app_bitrate = Inr (Some sample_cmd_bitrate) \<and>
   (''-b:v'', ''2500k'') \<in> set (ffmpeg_options sample_cmd_bitrate) \<and>
   ''-crf'' \<notin> fst ` set (ffmpeg_options sample_cmd_bitrate)"
proof -
  have b: "spin_value (bitrate_spin sample_app_bitrate) = 2500"
    by (simp add: sample_app_bitrate_def setValue_def sample_app_def init_ui_def setRange_def
        QSpinBox_new_def)
  from rate_control_mode[OF sample_command] rate_control_mode[OF sample_command_bitrate]
  show ?thesis
    using sample_command sample_command_bitrate
    by (simp add: sample_spins b py_str_int_small)
qed



section \<open>Settings store\<close>


lemma sample_env_fields:
  "path_exists sample_env = (\<lambda>p. p = ''/videos/clip.mp4'')" "home sample_env = ''/home/user''"
  "platform sample_env = ''linux''"
  by (simp_all add: sample_env_def)

lemma run_steps_invariant:
  assumes "\<And>f s s'. f \<in> set fs \<Longrightarrow> P s \<Longrightarrow> f s = Inr s' \<Longrightarrow> P s'" and "P s"
  shows "P (fst (run_steps fs s))"
  using assms
proof (induction fs arbitrary: s)
  case Nil
  then show ?case by simp
next
  case (Cons f fs)
  show ?case
  proof (cases "f s")
    case (Inl x)
    then show ?thesis using Cons.prems(2) by simp
  next
    case (Inr s')
    have "P s'" using Cons.prems(1)[of f s s'] Cons.prems(2) Inr by simp
    moreover have "\<And>g t t'. g \<in> set fs \<Longrightarrow> P t \<Longrightarrow> g t = Inr t' \<Longrightarrow> P t'"
      using Cons.prems(1) by (meson list.set_intros(2))
    ultimately have "P (fst (run_steps fs s'))" using Cons.IH by blast
    then show ?thesis using Inr by simp
  qed
qed

lemma load_spin_ok:
  "spin_ok lo hi sb \<Longrightarrow> lo \<le> hi \<Longrightarrow> load_spin settings key d sb = Inr sb' \<Longrightarrow> spin_ok lo hi sb'"
  by (auto simp: load_spin_def spin_ok_def setValue_def split: sum.splits)

lemma restore_source_spins:
  "restore_source e settings st = Inr st' \<Longrightarrow>
     crop_top_spin st' = crop_top_spin st \<and> crop_bottom_spin st' = crop_bottom_spin st \<and>
     crop_left_spin st' = crop_left_spin st \<and> crop_right_spin st' = crop_right_spin st \<and>
     quality_spin st' = quality_spin st \<and> bitrate_spin st' = bitrate_spin st \<and>
     output_path st' = output_path st"
  by (auto simp: restore_source_def split: sum.splits json.splits if_splits option.splits)

lemma load_steps_widgets_ok:
  assumes "f \<in> set (load_steps e settings)" "widgets_ok s" "f s = Inr s'"
  shows "widgets_ok s'"
proof -
  from assms(1) consider
      "f = (\<lambda>st. map_sum id (\<lambda>sb. st\<lparr>crop_top_spin := sb\<rparr>)
             (load_spin settings ''crop_top'' 0 (crop_top_spin st)))"
    | "f = (\<lambda>st. map_sum id (\<lambda>sb. st\<lparr>crop_bottom_spin := sb\<rparr>)
             (load_spin settings ''crop_bottom'' 0 (crop_bottom_spin st)))"
    | "f = (\<lambda>st. map_sum id (\<lambda>sb. st\<lparr>crop_left_spin := sb\<rparr>)
             (load_spin settings ''crop_left'' 0 (crop_left_spin st)))"
    | "f = (\<lambda>st. map_sum id (\<lambda>sb. st\<lparr>crop_right_spin := sb\<rparr>)
             (load_spin settings ''crop_right'' 0 (crop_right_spin st)))"
    | "f = (\<lambda>st. map_sum id (\<lambda>v. st\<lparr>output_path := v\<rparr>)
             (dict_get settings ''output_path'' (JString (home e))))"
    | "f = (\<lambda>st. map_sum id (\<lambda>sb. st\<lparr>quality_spin := sb\<rparr>)
             (load_spin settings ''quality'' 30 (quality_spin st)))"
    | "f = (\<lambda>st. map_sum id (\<lambda>sb. st\<lparr>bitrate_spin := sb\<rparr>)
             (load_spin settings ''bitrate'' 0 (bitrate_spin st)))"
    | "f = restore_source e settings"
    unfolding load_steps_def by auto
  then show ?thesis
  proof cases
    case 1
    with assms(3) obtain sb where "load_spin settings ''crop_top'' 0 (crop_top_spin s) = Inr sb"
      "s' = s\<lparr>crop_top_spin := sb\<rparr>" by (cases "load_spin settings ''crop_top'' 0 (crop_top_spin s)") auto
    then show ?thesis using assms(2) load_spin_ok[of 0 4000 "crop_top_spin s"]
      by (simp add: widgets_ok_def)
  next
    case 2
    with assms(3) obtain sb where "load_spin settings ''crop_bottom'' 0 (crop_bottom_spin s) = Inr sb"
      "s' = s\<lparr>crop_bottom_spin := sb\<rparr>" by (cases "load_spin settings ''crop_bottom'' 0 (crop_bottom_spin s)") auto
    then show ?thesis using assms(2) load_spin_ok[of 0 4000 "crop_bottom_spin s"]
      by (simp add: widgets_ok_def)
  next
    case 3
    with assms(3) obtain sb where "load_spin settings ''crop_left'' 0 (crop_left_spin s) = Inr sb"
      "s' = s\<lparr>crop_left_spin := sb\<rparr>" by (cases "load_spin settings ''crop_left'' 0 (crop_left_spin s)") auto
    then show ?thesis using assms(2) load_spin_ok[of 0 4000 "crop_left_spin s"]
      by (simp add: widgets_ok_def)
  next
    case 4
    with assms(3) obtain sb where "load_spin settings ''crop_right'' 0 (crop_right_spin s) = Inr sb"
      "s' = s\<lparr>crop_right_spin := sb\<rparr>" by (cases "load_spin settings ''crop_right'' 0 (crop_right_spin s)") auto
    then show ?thesis using assms(2) load_spin_ok[of 0 4000 "crop_right_spin s"]
      by (simp add: widgets_ok_def)
  next
    case 5
    with assms(3) obtain v where "s' = s\<lparr>output_path := v\<rparr>"
      by (cases "dict_get settings ''output_path'' (JString (home e))") auto
    then show ?thesis using assms(2) by (simp add: widgets_ok_def)
  next
    case 6
    with assms(3) obtain sb where "load_spin settings ''quality'' 30 (quality_spin s) = Inr sb"
      "s' = s\<lparr>quality_spin := sb\<rparr>" by (cases "load_spin settings ''quality'' 30 (quality_spin s)") auto
    then show ?thesis using assms(2) load_spin_ok[of 0 63 "quality_spin s"]
      by (simp add: widgets_ok_def)
  next
    case 7
    with assms(3) obtain sb where "load_spin settings ''bitrate'' 0 (bitrate_spin s) = Inr sb"
      "s' = s\<lparr>bitrate_spin := sb\<rparr>" by (cases "load_spin settings ''bitrate'' 0 (bitrate_spin s)") auto
    then show ?thesis using assms(2) load_spin_ok[of 0 50000 "bitrate_spin s"]
      by (simp add: widgets_ok_def)
  next
    case 8
    with assms(3) have "restore_source e settings s = Inr s'" by simp
    from restore_source_spins[OF this] show ?thesis using assms(2) by (simp add: widgets_ok_def)
  qed
qed

lemma load_settings_widgets_ok:
  assumes "widgets_ok st"
  shows "widgets_ok (load_settings e sfile st)"
proof (cases sfile)
  case (Document settings)
  from assms have "widgets_ok (fst (run_steps (load_steps e settings) st))"
    by (rule run_steps_invariant[where P = widgets_ok, rotated]) (rule load_steps_widgets_ok)
  then show ?thesis using Document by (simp add: load_settings_def)
qed (use assms in \<open>simp_all add: load_settings_def\<close>)

lemma init_ui_widgets_ok: "widgets_ok (init_ui e)"
  by (simp add: widgets_ok_def spin_ok_def init_ui_def setRange_def setValue_def QSpinBox_new_def)

lemma detect_sources_widgets_ok: "widgets_ok st \<Longrightarrow> widgets_ok (detect_sources e st)"
  by (simp add: widgets_ok_def detect_sources_def)

text \<open>
  Claim C9. Loading keeps every spin box inside the range configured in \<^verbatim>\<open>init_ui\<close>,
  whatever the settings file holds: crop distances in 0..4000, quality in 0..63, bitrate in
  0..50000. This holds for a load into any state that satisfies the widget invariant and
  for the state after start-up. A value that is loaded passes through \<^verbatim>\<open>setValue\<close> and
  is clamped to the range of its spin box.
\<close>

theorem loaded_values_within_bounds:
  "(widgets_ok st \<longrightarrow> widgets_ok (load_settings e sfile st)) \<and>
   widgets_ok (CropCastApp_init e sfile) \<and>
   (widgets_ok st \<longrightarrow>
      0 \<le> spin_value (crop_top_spin (load_settings e sfile st)) \<and>
      spin_value (crop_top_spin (load_settings e sfile st)) \<le> 4000 \<and>
      0 \<le> spin_value (crop_bottom_spin (load_settings e sfile st)) \<and>
      spin_value (crop_bottom_spin (load_settings e sfile st)) \<le> 4000 \<and>
      0 \<le> spin_value (crop_left_spin (load_settings e sfile st)) \<and>
      spin_value (crop_left_spin (load_settings e sfile st)) \<le> 4000 \<and>
      0 \<le> spin_value (crop_right_spin (load_settings e sfile st)) \<and>
      spin_value (crop_right_spin (load_settings e sfile st)) \<le> 4000 \<and>
      0 \<le> spin_value (quality_spin (load_settings e sfile st)) \<and>
      spin_value (quality_spin (load_settings e sfile st)) \<le> 63 \<and>
      0 \<le> spin_value (bitrate_spin (load_settings e sfile st)) \<and>
      spin_value (bitrate_spin (load_settings e sfile st)) \<le> 50000) \<and>
   (load_spin settings key dflt sb = Inr sb' \<longrightarrow>
      (\<exists>v. json_to_c_int (case settings of JObject kvs \<Rightarrow>
                              (case map_of kvs key of Some j \<Rightarrow> j | None \<Rightarrow> JInt dflt)
                            | _ \<Rightarrow> JNull) = Inr v \<and>
           spin_value sb' = max (minimum sb) (min (maximum sb) v)))"
proof -
  have a: "widgets_ok st \<longrightarrow> widgets_ok (load_settings e sfile st)"
    by (simp add: load_settings_widgets_ok)
  have b: "widgets_ok (CropCastApp_init e sfile)"
    unfolding CropCastApp_init_def
    by (intro detect_sources_widgets_ok load_settings_widgets_ok init_ui_widgets_ok)
  have c: "load_spin settings key dflt sb = Inr sb' \<longrightarrow>
      (\<exists>v. json_to_c_int (case settings of JObject kvs \<Rightarrow>
                              (case map_of kvs key of Some j \<Rightarrow> j | None \<Rightarrow> JInt dflt)
                            | _ \<Rightarrow> JNull) = Inr v \<and>
           spin_value sb' = max (minimum sb) (min (maximum sb) v))"
    by (auto simp: load_spin_def dict_get_def setValue_def split: sum.splits json.splits)
  from a b c show ?thesis
    by (auto simp: widgets_ok_def spin_ok_def)
qed

lemma sample_load_spin:
  "load_spin (JObject sample_settings) ''crop_top'' 0 (crop_top_spin (init_ui sample_env)) =
     Inr (setValue 5000 (crop_top_spin (init_ui sample_env)))"
  by (simp add: load_spin_def dict_get_def sample_settings_def c_int_def)

theorem loaded_values_within_bounds_witness:
  "widgets_ok (init_ui sample_env) \<and>
   widgets_ok (load_settings sample_env (Document (JObject sample_settings)) (init_ui sample_env)) \<and>
   widgets_ok (CropCastApp_init sample_env (Document (JObject sample_settings))) \<and>
   spin_value (crop_top_spin (load_settings sample_env (Document (JObject sample_settings))
                                (init_ui sample_env))) \<le> 4000 \<and>
   spin_value (setValue 5000 (crop_top_spin (init_ui sample_env))) = 4000"
  using loaded_values_within_bounds[where st = "init_ui sample_env" and e = sample_env
      and sfile = "Document (JObject sample_settings)" and settings = "JObject sample_settings"
      and key = "''crop_top''" and dflt = 0 and sb = "crop_top_spin (init_ui sample_env)"
      and sb' = "setValue 5000 (crop_top_spin (init_ui sample_env))"]
    init_ui_widgets_ok[of sample_env] sample_load_spin
  by (simp add: sample_settings_def init_ui_def setRange_def QSpinBox_new_def c_int_def)

lemma load_step_cases:
  assumes "f \<in> set (load_steps e settings)" "f s = Inr s'"
  shows "(\<exists>sb. load_spin settings ''crop_top'' 0 (crop_top_spin s) = Inr sb \<and> s' = s\<lparr>crop_top_spin := sb\<rparr>) \<or>
         (\<exists>sb. load_spin settings ''crop_bottom'' 0 (crop_bottom_spin s) = Inr sb \<and> s' = s\<lparr>crop_bottom_spin := sb\<rparr>) \<or>
         (\<exists>sb. load_spin settings ''crop_left'' 0 (crop_left_spin s) = Inr sb \<and> s' = s\<lparr>crop_left_spin := sb\<rparr>) \<or>
         (\<exists>sb. load_spin settings ''crop_right'' 0 (crop_right_spin s) = Inr sb \<and> s' = s\<lparr>crop_right_spin := sb\<rparr>) \<or>
         (\<exists>v. dict_get settings ''output_path'' (JString (home e)) = Inr v \<and> s' = s\<lparr>output_path := v\<rparr>) \<or>
         (\<exists>sb. load_spin settings ''quality'' 30 (quality_spin s) = Inr sb \<and> s' = s\<lparr>quality_spin := sb\<rparr>) \<or>
         (\<exists>sb. load_spin settings ''bitrate'' 0 (bitrate_spin s) = Inr sb \<and> s' = s\<lparr>bitrate_spin := sb\<rparr>) \<or>
         restore_source e settings s = Inr s'"
proof -
  have m: "map_sum id g r = Inr s' \<Longrightarrow> \<exists>x. r = Inr x \<and> s' = g x" for g :: "'b \<Rightarrow> CropCastApp" and r :: "exn + 'b"
    by (cases r) auto
  from assms(1) have "f = (\<lambda>st. map_sum id (\<lambda>sb. st\<lparr>crop_top_spin := sb\<rparr>)
             (load_spin settings ''crop_top'' 0 (crop_top_spin st)))
    \<or> f = (\<lambda>st. map_sum id (\<lambda>sb. st\<lparr>crop_bottom_spin := sb\<rparr>)
             (load_spin settings ''crop_bottom'' 0 (crop_bottom_spin st)))
    \<or> f = (\<lambda>st. map_sum id (\<lambda>sb. st\<lparr>crop_left_spin := sb\<rparr>)
             (load_spin settings ''crop_left'' 0 (crop_left_spin st)))
    \<or> f = (\<lambda>st. map_sum id (\<lambda>sb. st\<lparr>crop_right_spin := sb\<rparr>)
             (load_spin settings ''crop_right'' 0 (crop_right_spin st)))
    \<or> f = (\<lambda>st. map_sum id (\<lambda>v. st\<lparr>output_path := v\<rparr>)
             (dict_get settings ''output_path'' (JString (home e))))
    \<or> f = (\<lambda>st. map_sum id (\<lambda>sb. st\<lparr>quality_spin := sb\<rparr>)
             (load_spin settings ''quality'' 30 (quality_spin st)))
    \<or> f = (\<lambda>st. map_sum id (\<lambda>sb. st\<lparr>bitrate_spin := sb\<rparr>)
             (load_spin settings ''bitrate'' 0 (bitrate_spin st)))
    \<or> f = restore_source e settings"
    unfolding load_steps_def by auto
  then show ?thesis using assms(2) by (elim disjE) (auto dest!: m)
qed

lemma first_index_None: "first_index P xs = None \<longleftrightarrow> (\<forall>x \<in> set xs. \<not> P x)"
  by (induction xs) auto

lemma restore_source_dropped:
  assumes "map_of kvs ''source'' = Some (JString s)"
    and "(\<not> startswith_any s [''video='', ''/dev/''] \<and> \<not> path_exists e s) \<or>
         (startswith_any s [''video='', ''/dev/''] \<and> Some s \<notin> snd ` set (items (source_combo st)))"
  shows "restore_source e (JObject kvs) st = Inr st"
proof -
  have "first_index (\<lambda>it. snd it = Some s) (items (source_combo st)) = None"
    if "Some s \<notin> snd ` set (items (source_combo st))"
    using that unfolding first_index_None by force
  then show ?thesis using assms
    by (auto simp: restore_source_def dict_get_def)
qed

lemma restore_source_source:
  "restore_source e settings st = Inr st' \<Longrightarrow>
     current_source st' = current_source st \<or>
     (\<exists>s. dict_get settings ''source'' JNull = Inr (JString s) \<and> s \<noteq> [] \<and> current_source st' = Some s)"
  by (auto simp: restore_source_def split: sum.splits json.splits if_splits option.splits)

lemma load_keeps_source:
  assumes "map_of kvs ''source'' = Some (JString s)"
    and "(\<not> startswith_any s [''video='', ''/dev/''] \<and> \<not> path_exists e s) \<or>
         (startswith_any s [''video='', ''/dev/''] \<and> Some s \<notin> snd ` set (items (source_combo st)))"
  shows "current_source (load_settings e (Document (JObject kvs)) st) = current_source st \<and>
         source_combo (load_settings e (Document (JObject kvs)) st) = source_combo st \<and>
         is_device_source (load_settings e (Document (JObject kvs)) st) = is_device_source st"
proof -
  let ?P = "\<lambda>t. current_source t = current_source st \<and> source_combo t = source_combo st \<and>
                 is_device_source t = is_device_source st"
  have step: "?P t'" if "f \<in> set (load_steps e (JObject kvs))" "?P t" "f t = Inr t'" for f t t'
  proof -
    have "restore_source e (JObject kvs) t = Inr t"
      using assms that(2) by (intro restore_source_dropped) auto
    with load_step_cases[OF that(1,3)] that(2) show ?thesis by auto
  qed
  have "?P (fst (run_steps (load_steps e (JObject kvs)) st))"
    by (rule run_steps_invariant[where P = ?P]) (use step in blast, simp)
  then show ?thesis by (simp add: load_settings_def)
qed

text \<open>
  Claim C8. When the settings document gives a source that is a file path not present on
  disk, \<^verbatim>\<open>load_settings\<close> leaves the current source as it was, which at start-up is
  unset. A device source that is not among the items of the source combo box is dropped in
  the same way; at start-up the combo box is still empty, so every device source is.
\<close>

theorem unavailable_source_dropped:
  assumes "map_of kvs ''source'' = Some (JString s)"
  shows "(\<not> startswith_any s [''video='', ''/dev/''] \<and> \<not> path_exists e s \<longrightarrow>
            current_source (load_settings e (Document (JObject kvs)) st) = current_source st \<and>
            current_source (CropCastApp_init e (Document (JObject kvs))) = None) \<and>
         (startswith_any s [''video='', ''/dev/''] \<and>
          Some s \<notin> snd ` set (items (source_combo st)) \<longrightarrow>
            current_source (load_settings e (Document (JObject kvs)) st) = current_source st) \<and>
         (startswith_any s [''video='', ''/dev/''] \<longrightarrow>
            current_source (CropCastApp_init e (Document (JObject kvs))) = None)"
proof -
  have init: "current_source (init_ui e) = None" "items (source_combo (init_ui e)) = []"
    by (simp_all add: init_ui_def)
  have cs: "current_source (CropCastApp_init e f) = current_source (load_settings e f (init_ui e))" for f
    by (simp add: CropCastApp_init_def detect_sources_def)
  show ?thesis
    using load_keeps_source[OF assms, of e st] load_keeps_source[OF assms, of e "init_ui e"]
    by (auto simp: cs init)
qed

theorem unavailable_source_dropped_witness:
  "map_of sample_settings ''source'' = Some (JString ''/nonexistent/file.mp4'') \<and>
   current_source (load_settings sample_env (Document (JObject sample_settings)) sample_app)
     = Some ''/videos/clip.mp4'' \<and>
   current_source (CropCastApp_init sample_env (Document (JObject sample_settings))) = None \<and>
   map_of device_settings ''source'' = Some (JString ''/dev/video0'') \<and>
   current_source (load_settings sample_env (Document (JObject device_settings)) sample_app)
     = Some ''/videos/clip.mp4'' \<and>
   current_source (CropCastApp_init sample_env (Document (JObject device_settings))) = None"
proof -
  have a: "map_of sample_settings ''source'' = Some (JString ''/nonexistent/file.mp4'')"
    by (simp add: sample_settings_def)
  have b: "map_of device_settings ''source'' = Some (JString ''/dev/video0'')"
    by (simp add: device_settings_def)
  have c: "items (source_combo sample_app) = []"
    by (simp add: sample_app_def init_ui_def)
  from unavailable_source_dropped[OF a, where e = sample_env and st = sample_app]
    unavailable_source_dropped[OF b, where e = sample_env and st = sample_app]
  show ?thesis using a b
    by (simp add: sample_env_fields startswith_any_def c sample_spins)
qed




lemma setValue_id: "spin_ok lo hi sb \<Longrightarrow> spin_value sb = v \<Longrightarrow> setValue v sb = sb"
  by (auto simp: spin_ok_def setValue_def)

lemma c_int_small: "- 1 \<le> v \<Longrightarrow> v \<le> 50000 \<Longrightarrow> c_int v"
  by (simp add: c_int_def)







end
